theory Spec2Isabelle
  imports Main "HOL-Library.Sublist"
begin

section \<open>Go strings and the standard-library functions used by the selection parser\<close>

text \<open>
  A Go string is a sequence of bytes; it is modelled as \<^typ>\<open>string\<close>, a list of 8-bit
  characters. The Go type \<open>int\<close> (64 bits on the supported platforms) is modelled as
  \<^typ>\<open>int\<close>; the only place where a value could leave the 64-bit range is the result of
  \<open>strconv.Atoi\<close>, which reports a range error there.
\<close>

text \<open>
  \<open>strings.Split(s, ",")\<close>: the segments between the commas, one more than there are
  commas; the empty string gives one empty segment.
\<close>

fun Split :: "string \<Rightarrow> string list" where
  "Split [] = [[]]"
| "Split (c # cs) =
     (if c = CHR '','' then [] # Split cs
      else (case Split cs of [] \<Rightarrow> [[c]] | w # ws \<Rightarrow> (c # w) # ws))"

text \<open>
  \<open>strings.TrimSpace\<close> removes leading and trailing white space as defined by Unicode
  (\<open>unicode.IsSpace\<close>). On the bytes of the string these are the six ASCII characters
  tab, line feed, vertical tab, form feed, carriage return and space, and the UTF-8
  encodings of U+0085, U+00A0, U+1680, U+2000 to U+200A, U+2028, U+2029, U+202F, U+205F
  and U+3000. No encoding in the table is a prefix or a suffix of another one.
\<close>

definition whiteSpace :: "string list" where
  "whiteSpace =
     [[CHR 0x09], [CHR 0x0A], [CHR 0x0B], [CHR 0x0C], [CHR 0x0D], [CHR 0x20],
      [CHR 0xC2, CHR 0x85], [CHR 0xC2, CHR 0xA0],
      [CHR 0xE1, CHR 0x9A, CHR 0x80],
      [CHR 0xE2, CHR 0x80, CHR 0x80], [CHR 0xE2, CHR 0x80, CHR 0x81],
      [CHR 0xE2, CHR 0x80, CHR 0x82], [CHR 0xE2, CHR 0x80, CHR 0x83],
      [CHR 0xE2, CHR 0x80, CHR 0x84], [CHR 0xE2, CHR 0x80, CHR 0x85],
      [CHR 0xE2, CHR 0x80, CHR 0x86], [CHR 0xE2, CHR 0x80, CHR 0x87],
      [CHR 0xE2, CHR 0x80, CHR 0x88], [CHR 0xE2, CHR 0x80, CHR 0x89],
      [CHR 0xE2, CHR 0x80, CHR 0x8A],
      [CHR 0xE2, CHR 0x80, CHR 0xA8], [CHR 0xE2, CHR 0x80, CHR 0xA9],
      [CHR 0xE2, CHR 0x80, CHR 0xAF],
      [CHR 0xE2, CHR 0x81, CHR 0x9F],
      [CHR 0xE3, CHR 0x80, CHR 0x80]]"

function trimLeft :: "string \<Rightarrow> string" where
  "trimLeft s =
     (case find (\<lambda>w. prefix w s) whiteSpace of
        None \<Rightarrow> s
      | Some w \<Rightarrow> trimLeft (drop (length w) s))"
  by pat_completeness auto
termination
proof (relation "measure length")
  fix s w
  assume "find (\<lambda>w. prefix w s) whiteSpace = Some w"
  then have "w \<in> set whiteSpace" and "prefix w s"
    by (auto simp: find_Some_iff)
  then have "w \<noteq> []" and "length w \<le> length s"
    by (auto simp: whiteSpace_def prefix_length_le)
  then show "(drop (length w) s, s) \<in> measure length"
    by (cases w) auto
qed simp

declare trimLeft.simps [simp del]

function trimRight :: "string \<Rightarrow> string" where
  "trimRight s =
     (case find (\<lambda>w. suffix w s) whiteSpace of
        None \<Rightarrow> s
      | Some w \<Rightarrow> trimRight (take (length s - length w) s))"
  by pat_completeness auto
termination
proof (relation "measure length")
  fix s w
  assume "find (\<lambda>w. suffix w s) whiteSpace = Some w"
  then have "w \<in> set whiteSpace" and "suffix w s"
    by (auto simp: find_Some_iff)
  then have "w \<noteq> []" and "length w \<le> length s"
    by (auto simp: whiteSpace_def suffix_length_le)
  then show "(take (length s - length w) s, s) \<in> measure length"
    by (cases w) auto
qed simp

declare trimRight.simps [simp del]

definition TrimSpace :: "string \<Rightarrow> string" where
  "TrimSpace s = trimRight (trimLeft s)"

text \<open>
  \<open>strconv.Atoi\<close>: an optional sign \<open>+\<close> or \<open>-\<close> followed by one or more ASCII decimal
  digits and nothing else; the value must fit the 64-bit \<open>int\<close>. Anything else is a
  \<open>*NumError\<close>, with \<open>ErrSyntax\<close> or \<open>ErrRange\<close>.
\<close>

datatype NumError = ErrSyntax | ErrRange

definition isDigit :: "char \<Rightarrow> bool" where
  "isDigit c \<longleftrightarrow> 48 \<le> (of_char c :: nat) \<and> (of_char c :: nat) \<le> 57"

definition digitVal :: "char \<Rightarrow> int" where
  "digitVal c = of_char c - 48"

fun parseDigits :: "int \<Rightarrow> string \<Rightarrow> int option" where
  "parseDigits n [] = Some n"
| "parseDigits n (c # cs) =
     (if isDigit c then parseDigits (n * 10 + digitVal c) cs else None)"

definition minInt :: int where
  "minInt = - (2 ^ 63)"

definition maxInt :: int where
  "maxInt = 2 ^ 63 - 1"

definition Atoi :: "string \<Rightarrow> NumError + int" where
  "Atoi s =
     (let signed = (s \<noteq> [] \<and> (hd s = CHR ''-'' \<or> hd s = CHR ''+''));
          neg = (s \<noteq> [] \<and> hd s = CHR ''-'');
          digits = (if signed then tl s else s)
      in if digits = [] then Inl ErrSyntax
         else (case parseDigits 0 digits of
                 None \<Rightarrow> Inl ErrSyntax
               | Some u \<Rightarrow>
                   (let n = (if neg then - u else u)
                    in if n < minInt \<or> maxInt < n then Inl ErrRange else Inr n)))"

section \<open>The selection parser\<close>

text \<open>
  Errors are values. Each constructor stands for one message built in the source:
  \<open>InvalidNumber p\<close> for \<open>fmt.Errorf("invalid number: %q", p)\<close> and
  \<open>ChoiceOutOfRange n\<close> for \<open>fmt.Errorf("choice out of range: %d", n)\<close>.
\<close>

datatype parse_error = InvalidNumber string | ChoiceOutOfRange int

text \<open>
  \<open>dedupe\<close>: the loop over \<open>in\<close> with the set \<open>seen\<close> (a Go map with empty values) and
  the output slice.
\<close>

fun dedupe_loop :: "int list \<Rightarrow> (int \<rightharpoonup> unit) \<Rightarrow> int list \<Rightarrow> int list" where
  "dedupe_loop [] seen out = out"
| "dedupe_loop (v # vs) seen out =
     (if seen v \<noteq> None then dedupe_loop vs seen out
      else dedupe_loop vs (seen(v \<mapsto> ())) (out @ [v]))"

definition dedupe :: "int list \<Rightarrow> int list" where
  "dedupe inp = dedupe_loop inp Map.empty []"

text \<open>
  The inner loop of \<open>parseNumbers\<close>, \<open>for i := 1; i <= max; i++ { out = append(out, i) }\<close>.
  The parameter \<open>max\<close> of the source is written \<open>mx\<close>. In every call it is the length
  of a slice, so the counter stays below the largest \<open>int\<close> and does not wrap.
\<close>

function appendUpTo :: "int \<Rightarrow> int \<Rightarrow> int list \<Rightarrow> int list" where
  "appendUpTo i mx out = (if i \<le> mx then appendUpTo (i + 1) mx (out @ [i]) else out)"
  by pat_completeness auto
termination
  by (relation "measure (\<lambda>(i, mx, out). nat (mx + 1 - i))") auto

declare appendUpTo.simps [simp del]

text \<open>
  The outer loop of \<open>parseNumbers\<close> over the segments, with the slice \<open>out\<close> accumulated so
  far. \<open>out = out[:0]\<close> empties the slice before the inner loop fills it.
\<close>

fun parseNumbers_loop :: "string list \<Rightarrow> int \<Rightarrow> int list \<Rightarrow> parse_error + int list" where
  "parseNumbers_loop [] mx out = Inr (dedupe out)"
| "parseNumbers_loop (p0 # parts) mx out =
     (let p = TrimSpace p0
      in if p = [] then parseNumbers_loop parts mx out
         else if p = ''0'' then Inr (appendUpTo 1 mx [])
         else (case Atoi p of
                 Inl err \<Rightarrow> Inl (InvalidNumber p)
               | Inr n \<Rightarrow>
                   if n < 1 \<or> n > mx then Inl (ChoiceOutOfRange n)
                   else parseNumbers_loop parts mx (out @ [n])))"

definition parseNumbers :: "string \<Rightarrow> int \<Rightarrow> parse_error + int list" where
  "parseNumbers s mx = parseNumbers_loop (Split s) mx []"

subsection \<open>Notions used to state the parser's properties\<close>

text \<open>
  A token of the input is a segment that is not empty after trimming. A token is a valid
  choice when \<open>strconv.Atoi\<close> accepts it and its value lies in \<open>[1, mx]\<close>; \<open>choiceOf\<close>
  is that value.
\<close>

definition tokens :: "string \<Rightarrow> string list" where
  "tokens s = filter (\<lambda>p. p \<noteq> []) (map TrimSpace (Split s))"

definition validChoice :: "int \<Rightarrow> string \<Rightarrow> bool" where
  "validChoice mx t = (case Atoi t of Inl err \<Rightarrow> False | Inr n \<Rightarrow> 1 \<le> n \<and> n \<le> mx)"

definition choiceOf :: "string \<Rightarrow> int" where
  "choiceOf t = (case Atoi t of Inl err \<Rightarrow> 0 | Inr n \<Rightarrow> n)"

text \<open>
  The specification's "deduplicated, in first-occurrence order": keep the head, and remove
  it from what the rest contributes.
\<close>

fun first_occurrences :: "int list \<Rightarrow> int list" where
  "first_occurrences [] = []"
| "first_occurrences (x # xs) = x # filter (\<lambda>y. y \<noteq> x) (first_occurrences xs)"

text \<open>
  The loop of \<open>parseNumbers\<close> as it acts on the tokens: an auxiliary function for the
  proofs, shown below to agree with the loop over the segments.
\<close>

fun token_loop :: "string list \<Rightarrow> int \<Rightarrow> int list \<Rightarrow> parse_error + int list" where
  "token_loop [] mx out = Inr (dedupe out)"
| "token_loop (t # ts) mx out =
     (if t = ''0'' then Inr (appendUpTo 1 mx [])
      else (case Atoi t of
              Inl err \<Rightarrow> Inl (InvalidNumber t)
            | Inr n \<Rightarrow>
                if n < 1 \<or> n > mx then Inl (ChoiceOutOfRange n)
                else token_loop ts mx (out @ [n])))"


section \<open>The preference record and its JSON form\<close>

text \<open>
  The struct \<open>AppConfig\<close>. A Go slice is either \<open>nil\<close> or a sequence of elements, and
  \<open>encoding/json\<close> writes the two differently (\<open>null\<close> and \<open>[]\<close> when there are no
  elements), so the field \<open>LastSelections\<close> is an optional list, with \<open>None\<close> for \<open>nil\<close>.
  The program reads a slice only through \<open>len\<close> and \<open>range\<close>, that is through \<open>elems\<close>.
\<close>

record AppConfig =
  LastSelections :: "int list option"
  SavedAt :: string

definition elems :: "int list option \<Rightarrow> int list" where
  "elems sl = (case sl of None \<Rightarrow> [] | Some xs \<Rightarrow> xs)"

subsection \<open>UTF-8\<close>

text \<open>
  \<open>utf8Width s\<close> is the number of bytes of the multi-byte UTF-8 encoding that \<open>s\<close> starts
  with, as \<open>utf8.DecodeRune\<close> accepts it (no overlong forms, no surrogates, nothing above
  U+10FFFF), and \<open>0\<close> when there is none. \<open>encodeRune\<close> is \<open>utf8.EncodeRune\<close> on a code
  point that is not a surrogate.
\<close>

definition byte :: "char \<Rightarrow> nat" where
  "byte c = of_char c"

definition cont :: "char \<Rightarrow> bool" where
  "cont c \<longleftrightarrow> 0x80 \<le> byte c \<and> byte c \<le> 0xBF"

fun utf8Width :: "string \<Rightarrow> nat" where
  "utf8Width (a # b # rest) =
     (let x = byte a; y = byte b
      in if 0xC2 \<le> x \<and> x \<le> 0xDF then (if cont b then 2 else 0)
         else if 0xE0 \<le> x \<and> x \<le> 0xEF then
           (if (if x = 0xE0 then 0xA0 \<le> y \<and> y \<le> 0xBF
                else if x = 0xED then 0x80 \<le> y \<and> y \<le> 0x9F
                else cont b)
               \<and> (case rest of [] \<Rightarrow> False | c # _ \<Rightarrow> cont c)
            then 3 else 0)
         else if 0xF0 \<le> x \<and> x \<le> 0xF4 then
           (if (if x = 0xF0 then 0x90 \<le> y \<and> y \<le> 0xBF
                else if x = 0xF4 then 0x80 \<le> y \<and> y \<le> 0x8F
                else cont b)
               \<and> (case rest of c # d # _ \<Rightarrow> cont c \<and> cont d | _ \<Rightarrow> False)
            then 4 else 0)
         else 0)"
| "utf8Width _ = 0"

definition encodeRune :: "nat \<Rightarrow> string" where
  "encodeRune r =
     (if r < 0x80 then [char_of r]
      else if r < 0x800 then [char_of (0xC0 + r div 64), char_of (0x80 + r mod 64)]
      else if r < 0x10000 then
        [char_of (0xE0 + r div 4096), char_of (0x80 + r div 64 mod 64), char_of (0x80 + r mod 64)]
      else
        [char_of (0xF0 + r div 262144), char_of (0x80 + r div 4096 mod 64),
         char_of (0x80 + r div 64 mod 64), char_of (0x80 + r mod 64)])"

definition replacementChar :: string where
  "replacementChar = [CHR 0xEF, CHR 0xBF, CHR 0xBD]"

subsection \<open>Encoding\<close>

text \<open>
  \<open>json.MarshalIndent(cfg, "", "  ")\<close> for an \<open>AppConfig\<close>. Integers are written in decimal
  (\<open>FormatInt\<close>). \<open>appendString\<close> is the encoder's string escaping: quote and backslash
  get a backslash, the control characters their short form (backspace, form feed, line
  feed, carriage return and tab, as Go 1.22 and later write them; earlier releases write
  backspace and form feed as \<open>\u0008\<close> and \<open>\u000c\<close>) or else the \<open>\u00XX\<close> form, the characters
  \<open><\<close>, \<open>>\<close> and \<open>&\<close> the \<open>\u00XX\<close> form, U+2028 and U+2029 the \<open>\u202X\<close> form, and
  a byte that is not valid UTF-8 becomes \<open>\ufffd\<close>. Each array element stands on its own
  line; an empty array is \<open>[]\<close> and a \<open>nil\<close> slice is \<open>null\<close>. For this struct the encoder
  has no error case.
\<close>

function digitsOf :: "int \<Rightarrow> string" where
  "digitsOf n =
     (if n < 10 then [char_of (48 + nat n)]
      else digitsOf (n div 10) @ [char_of (48 + nat (n mod 10))])"
  by pat_completeness auto
termination
  by (relation "measure nat") auto

declare digitsOf.simps [simp del]

definition FormatInt :: "int \<Rightarrow> string" where
  "FormatInt i = (if i < 0 then CHR ''-'' # digitsOf (- i) else digitsOf i)"

definition hexDigit :: "nat \<Rightarrow> char" where
  "hexDigit n = (if n < 10 then char_of (48 + n) else char_of (87 + n))"

function appendString :: "string \<Rightarrow> string" where
  "appendString [] = []"
| "appendString (c # cs) =
     (let b = byte c
      in if b < 0x80 then
           (if c = CHR 0x22 \<or> c = CHR 0x5C then [CHR 0x5C, c]
            else if c = CHR 0x08 then [CHR 0x5C, CHR ''b'']
            else if c = CHR 0x0C then [CHR 0x5C, CHR ''f'']
            else if c = CHR 0x0A then [CHR 0x5C, CHR ''n'']
            else if c = CHR 0x0D then [CHR 0x5C, CHR ''r'']
            else if c = CHR 0x09 then [CHR 0x5C, CHR ''t'']
            else if b < 0x20 \<or> c = CHR ''<'' \<or> c = CHR ''>'' \<or> c = CHR ''&'' then
              [CHR 0x5C, CHR ''u'', CHR ''0'', CHR ''0'', hexDigit (b div 16), hexDigit (b mod 16)]
            else [c])
           @ appendString cs
         else
           (let w = utf8Width (c # cs)
            in if w = 0 then [CHR 0x5C, CHR ''u'', CHR ''f'', CHR ''f'', CHR ''f'', CHR ''d''] @ appendString cs
               else if take w (c # cs) = [CHR 0xE2, CHR 0x80, CHR 0xA8] then
                 [CHR 0x5C, CHR ''u'', CHR ''2'', CHR ''0'', CHR ''2'', CHR ''8''] @ appendString (drop w (c # cs))
               else if take w (c # cs) = [CHR 0xE2, CHR 0x80, CHR 0xA9] then
                 [CHR 0x5C, CHR ''u'', CHR ''2'', CHR ''0'', CHR ''2'', CHR ''9''] @ appendString (drop w (c # cs))
               else take w (c # cs) @ appendString (drop w (c # cs))))"
  by pat_completeness auto
termination
  by (relation "measure length") auto

definition encodeInts :: "int list option \<Rightarrow> string" where
  "encodeInts sl =
     (case sl of
        None \<Rightarrow> ''null''
      | Some [] \<Rightarrow> ''[]''
      | Some (x # xs) \<Rightarrow>
          [CHR ''['', CHR 0x0A] @ ''    '' @ FormatInt x
          @ concat (map (\<lambda>y. [CHR '','', CHR 0x0A] @ ''    '' @ FormatInt y) xs)
          @ [CHR 0x0A] @ ''  ]'')"

definition MarshalIndent :: "AppConfig \<Rightarrow> string" where
  "MarshalIndent cfg =
     [CHR ''{'', CHR 0x0A] @ ''  '' @ [CHR 0x22] @ ''last_selections'' @ [CHR 0x22] @ '': ''
     @ encodeInts (LastSelections cfg)
     @ [CHR '','', CHR 0x0A] @ ''  '' @ [CHR 0x22] @ ''saved_at'' @ [CHR 0x22] @ '': ''
     @ [CHR 0x22] @ appendString (SavedAt cfg) @ [CHR 0x22]
     @ [CHR 0x0A, CHR ''}'']"

subsection \<open>Decoding\<close>

text \<open>
  \<open>json.Unmarshal\<close> into an \<open>AppConfig\<close>, in two steps as in \<open>encoding/json\<close>: the input
  must be one well-formed JSON value surrounded by white space only, and the value is then
  stored into the struct. The first step is a recursive-descent reader that builds the
  value; \<open>unquote\<close> reads a string literal after its opening quote and \<open>scanNumber\<close> a
  number literal.
\<close>

datatype json =
  JNull | JBool bool | JNumber string | JString string
  | JArray "json list" | JObject "(string \<times> json) list"

definition isSpace :: "char \<Rightarrow> bool" where
  "isSpace c \<longleftrightarrow> c = CHR 0x20 \<or> c = CHR 0x09 \<or> c = CHR 0x0D \<or> c = CHR 0x0A"

definition skipSpace :: "string \<Rightarrow> string" where
  "skipSpace s = dropWhile isSpace s"

definition hexVal :: "char \<Rightarrow> nat option" where
  "hexVal c =
     (let b = byte c
      in if 48 \<le> b \<and> b \<le> 57 then Some (b - 48)
         else if 97 \<le> b \<and> b \<le> 102 then Some (b - 87)
         else if 65 \<le> b \<and> b \<le> 70 then Some (b - 55)
         else None)"

fun hex4 :: "string \<Rightarrow> nat option" where
  "hex4 (a # b # c # d # rest) =
     (case (hexVal a, hexVal b, hexVal c, hexVal d) of
        (Some w, Some x, Some y, Some z) \<Rightarrow> Some (((w * 16 + x) * 16 + y) * 16 + z)
      | _ \<Rightarrow> None)"
| "hex4 _ = None"

fun getu4 :: "string \<Rightarrow> nat option" where
  "getu4 (b # u # rest) = (if b = CHR 0x5C \<and> u = CHR ''u'' then hex4 rest else None)"
| "getu4 _ = None"

definition simpleEscape :: "char \<Rightarrow> char option" where
  "simpleEscape e =
     (if e = CHR 0x22 \<or> e = CHR 0x5C \<or> e = CHR ''/'' then Some e
      else if e = CHR ''b'' then Some (CHR 0x08)
      else if e = CHR ''f'' then Some (CHR 0x0C)
      else if e = CHR ''n'' then Some (CHR 0x0A)
      else if e = CHR ''r'' then Some (CHR 0x0D)
      else if e = CHR ''t'' then Some (CHR 0x09)
      else None)"

definition emit :: "string \<Rightarrow> (string \<times> string) option \<Rightarrow> (string \<times> string) option" where
  "emit pre r = (case r of None \<Rightarrow> None | Some (d, rest) \<Rightarrow> Some (pre @ d, rest))"

function unquote :: "string \<Rightarrow> (string \<times> string) option" where
  "unquote [] = None"
| "unquote (c # cs) =
     (if c = CHR 0x22 then Some ([], cs)
      else if c = CHR 0x5C then
        (case cs of
           [] \<Rightarrow> None
         | e # es \<Rightarrow>
             if e = CHR ''u'' then
               (case hex4 es of
                  None \<Rightarrow> None
                | Some r \<Rightarrow>
                    if 0xD800 \<le> r \<and> r < 0xE000 then
                      (case getu4 (drop 4 es) of
                         None \<Rightarrow> emit replacementChar (unquote (drop 4 es))
                       | Some r1 \<Rightarrow>
                           if r < 0xDC00 \<and> 0xDC00 \<le> r1 \<and> r1 < 0xE000 then
                             emit (encodeRune ((r - 0xD800) * 1024 + (r1 - 0xDC00) + 0x10000))
                               (unquote (drop 10 es))
                           else emit replacementChar (unquote (drop 4 es)))
                    else emit (encodeRune r) (unquote (drop 4 es)))
             else
               (case simpleEscape e of
                  None \<Rightarrow> None
                | Some d \<Rightarrow> emit [d] (unquote es)))
      else if byte c < 0x20 then None
      else if byte c < 0x80 then emit [c] (unquote cs)
      else
        (let w = utf8Width (c # cs)
         in if w = 0 then emit replacementChar (unquote cs)
            else emit (take w (c # cs)) (unquote (drop w (c # cs)))))"
  by pat_completeness auto
termination
  by (relation "measure length") auto

definition digitRun :: "string \<Rightarrow> string" where
  "digitRun s = takeWhile isDigit s"

definition scanInt :: "string \<Rightarrow> (string \<times> string) option" where
  "scanInt s =
     (case s of
        [] \<Rightarrow> None
      | c # cs \<Rightarrow>
          if c = CHR ''0'' then Some ([c], cs)
          else if isDigit c then Some (digitRun s, drop (length (digitRun s)) s)
          else None)"

definition scanFrac :: "string \<Rightarrow> (string \<times> string) option" where
  "scanFrac s =
     (case s of
        [] \<Rightarrow> Some ([], s)
      | c # cs \<Rightarrow>
          if c = CHR ''.'' then
            (if digitRun cs = [] then None
             else Some (c # digitRun cs, drop (length (digitRun cs)) cs))
          else Some ([], s))"

definition scanExp :: "string \<Rightarrow> (string \<times> string) option" where
  "scanExp s =
     (case s of
        [] \<Rightarrow> Some ([], s)
      | c # cs \<Rightarrow>
          if c = CHR ''e'' \<or> c = CHR ''E'' then
            (let sgn = (case cs of
                          [] \<Rightarrow> []
                        | d # _ \<Rightarrow> if d = CHR ''+'' \<or> d = CHR ''-'' then [d] else []);
                 ds = drop (length sgn) cs
             in if digitRun ds = [] then None
                else Some (c # sgn @ digitRun ds, drop (length (digitRun ds)) ds))
          else Some ([], s))"

definition scanNumber :: "string \<Rightarrow> (string \<times> string) option" where
  "scanNumber s =
     (let sgn = (case s of [] \<Rightarrow> [] | c # _ \<Rightarrow> if c = CHR ''-'' then [c] else [])
      in case scanInt (drop (length sgn) s) of
           None \<Rightarrow> None
         | Some (ip, r1) \<Rightarrow>
             (case scanFrac r1 of
                None \<Rightarrow> None
              | Some (fp, r2) \<Rightarrow>
                  (case scanExp r2 of
                     None \<Rightarrow> None
                   | Some (ep, r3) \<Rightarrow> Some (sgn @ ip @ fp @ ep, r3))))"

text \<open>
  The reader for values, array elements and object members. Arrays and objects may be
  nested \<open>maxNestingDepth\<close> deep. The first argument bounds the number of nested calls;
  every call but the one from \<open>parseElements\<close> to \<open>parseValue\<close> has consumed a byte, so
  twice the length of the input is enough, and \<open>Unmarshal\<close> starts with that.
\<close>

definition maxNestingDepth :: nat where
  "maxNestingDepth = 10000"

fun parseValue :: "nat \<Rightarrow> nat \<Rightarrow> string \<Rightarrow> (json \<times> string) option"
  and parseElements :: "nat \<Rightarrow> nat \<Rightarrow> string \<Rightarrow> (json list \<times> string) option"
  and parseMembers :: "nat \<Rightarrow> nat \<Rightarrow> string \<Rightarrow> ((string \<times> json) list \<times> string) option"
where
  "parseValue 0 d s = None"
| "parseValue (Suc fuel) d [] = None"
| "parseValue (Suc fuel) d (c # cs) =
     (if c = CHR ''{'' then
        (if maxNestingDepth \<le> d then None
         else (case skipSpace cs of
                 [] \<Rightarrow> None
               | c' # r \<Rightarrow>
                   if c' = CHR ''}'' then Some (JObject [], r)
                   else (case parseMembers fuel (Suc d) (c' # r) of
                           None \<Rightarrow> None
                         | Some (ms, r') \<Rightarrow> Some (JObject ms, r'))))
      else if c = CHR ''['' then
        (if maxNestingDepth \<le> d then None
         else (case skipSpace cs of
                 [] \<Rightarrow> None
               | c' # r \<Rightarrow>
                   if c' = CHR '']'' then Some (JArray [], r)
                   else (case parseElements fuel (Suc d) (c' # r) of
                           None \<Rightarrow> None
                         | Some (vs, r') \<Rightarrow> Some (JArray vs, r'))))
      else if c = CHR 0x22 then
        (case unquote cs of None \<Rightarrow> None | Some (str, r) \<Rightarrow> Some (JString str, r))
      else if c = CHR ''-'' \<or> isDigit c then
        (case scanNumber (c # cs) of None \<Rightarrow> None | Some (lit, r) \<Rightarrow> Some (JNumber lit, r))
      else if prefix ''true'' (c # cs) then Some (JBool True, drop 4 (c # cs))
      else if prefix ''false'' (c # cs) then Some (JBool False, drop 5 (c # cs))
      else if prefix ''null'' (c # cs) then Some (JNull, drop 4 (c # cs))
      else None)"
| "parseElements 0 d s = None"
| "parseElements (Suc fuel) d s =
     (case parseValue fuel d s of
        None \<Rightarrow> None
      | Some (v, r) \<Rightarrow>
          (case skipSpace r of
             [] \<Rightarrow> None
           | c # r' \<Rightarrow>
               if c = CHR '','' then
                 (case parseElements fuel d (skipSpace r') of
                    None \<Rightarrow> None
                  | Some (vs, r'') \<Rightarrow> Some (v # vs, r''))
               else if c = CHR '']'' then Some ([v], r')
               else None))"
| "parseMembers 0 d s = None"
| "parseMembers (Suc fuel) d s =
     (case s of
        [] \<Rightarrow> None
      | q # cs \<Rightarrow>
          if q \<noteq> CHR 0x22 then None
          else (case unquote cs of
                  None \<Rightarrow> None
                | Some (k, r) \<Rightarrow>
                    (case skipSpace r of
                       [] \<Rightarrow> None
                     | c # r1 \<Rightarrow>
                         if c \<noteq> CHR '':'' then None
                         else (case parseValue fuel d (skipSpace r1) of
                                 None \<Rightarrow> None
                               | Some (v, r2) \<Rightarrow>
                                   (case skipSpace r2 of
                                      [] \<Rightarrow> None
                                    | c2 # r3 \<Rightarrow>
                                        if c2 = CHR '','' then
                                          (case parseMembers fuel d (skipSpace r3) of
                                             None \<Rightarrow> None
                                           | Some (ms, r4) \<Rightarrow> Some ((k, v) # ms, r4))
                                        else if c2 = CHR ''}'' then Some ([(k, v)], r3)
                                        else None)))))"

text \<open>
  Storing the value into the struct. An object key selects the field whose name it equals
  up to Unicode simple case folding (\<open>equalFold\<close>: ASCII letters in either case, the long s
  U+017F for \<open>s\<close>, the Kelvin sign U+212A for \<open>k\<close>); other keys are skipped. \<open>null\<close> leaves a
  field or an element as it is. A number that \<open>strconv.ParseInt\<close> rejects, or a value of
  another kind, is an \<open>UnmarshalTypeError\<close>, reported after the whole input has been read.
  An array is stored element by element into the slice the field already holds, which
  matters only when a key occurs more than once: \<open>decodeInts\<close> carries the cells of the
  slice, the index of the next element and whether all elements so far were accepted.
\<close>

datatype json_error = SyntaxError | UnmarshalTypeError

definition upperASCII :: "char \<Rightarrow> char" where
  "upperASCII c = (if 97 \<le> byte c \<and> byte c \<le> 122 then char_of (byte c - 32) else c)"

fun equalFold :: "string \<Rightarrow> string \<Rightarrow> bool" where
  "equalFold [] key = (key = [])"
| "equalFold (n # ns) [] = False"
| "equalFold (n # ns) (c # cs) =
     (if byte c < 0x80 then upperASCII c = upperASCII n \<and> equalFold ns cs
      else if upperASCII n = CHR ''S'' \<and> prefix [CHR 0xC5, CHR 0xBF] (c # cs) then
        equalFold ns (drop 1 cs)
      else if upperASCII n = CHR ''K'' \<and> prefix [CHR 0xE2, CHR 0x84, CHR 0xAA] (c # cs) then
        equalFold ns (drop 2 cs)
      else False)"

definition storeAt :: "int list \<Rightarrow> nat \<Rightarrow> int \<Rightarrow> int list" where
  "storeAt arr i n =
     (if i < length arr then arr[i := n]
      else arr @ replicate (i - length arr) 0 @ [n])"

definition keepAt :: "int list \<Rightarrow> nat \<Rightarrow> int list" where
  "keepAt arr i =
     (if i < length arr then arr else arr @ replicate (Suc i - length arr) 0)"

fun decodeInts :: "json list \<Rightarrow> nat \<Rightarrow> int list \<Rightarrow> bool \<Rightarrow> int list \<times> nat \<times> bool" where
  "decodeInts [] i arr ok = (arr, i, ok)"
| "decodeInts (v # vs) i arr ok =
     (case v of
        JNumber lit \<Rightarrow>
          (case Atoi lit of
             Inl err \<Rightarrow> decodeInts vs (Suc i) (keepAt arr i) False
           | Inr n \<Rightarrow> decodeInts vs (Suc i) (storeAt arr i n) ok)
      | JNull \<Rightarrow> decodeInts vs (Suc i) (keepAt arr i) ok
      | _ \<Rightarrow> decodeInts vs (Suc i) (keepAt arr i) False)"

record decoder =
  cells :: "int list"
  config :: AppConfig
  typeOk :: bool

definition decodeMember :: "decoder \<Rightarrow> string \<times> json \<Rightarrow> decoder" where
  "decodeMember st kv =
     (case kv of (k, v) \<Rightarrow>
        if equalFold ''last_selections'' k then
          (case v of
             JNull \<Rightarrow> st
           | JArray vs \<Rightarrow>
               (case decodeInts vs 0 (cells st) True of
                  (cs, n, ok) \<Rightarrow>
                    st\<lparr>cells := (if n = 0 then [] else cs),
                       config := (config st)\<lparr>LastSelections := Some (take n cs)\<rparr>,
                       typeOk := (typeOk st \<and> ok)\<rparr>)
           | _ \<Rightarrow> st\<lparr>typeOk := False\<rparr>)
        else if equalFold ''saved_at'' k then
          (case v of
             JNull \<Rightarrow> st
           | JString str \<Rightarrow> st\<lparr>config := (config st)\<lparr>SavedAt := str\<rparr>\<rparr>
           | _ \<Rightarrow> st\<lparr>typeOk := False\<rparr>)
        else st)"

definition decodeConfig :: "json \<Rightarrow> json_error + AppConfig" where
  "decodeConfig v =
     (let zero = \<lparr>LastSelections = None, SavedAt = []\<rparr>
      in case v of
           JNull \<Rightarrow> Inr zero
         | JObject ms \<Rightarrow>
             (let st = foldl decodeMember \<lparr>cells = [], config = zero, typeOk = True\<rparr> ms
              in if typeOk st then Inr (config st) else Inl UnmarshalTypeError)
         | _ \<Rightarrow> Inl UnmarshalTypeError)"

definition Unmarshal :: "string \<Rightarrow> json_error + AppConfig" where
  "Unmarshal b =
     (case parseValue (2 * length b + 2) 0 (skipSpace b) of
        None \<Rightarrow> Inl SyntaxError
      | Some (v, r) \<Rightarrow> if skipSpace r = [] then decodeConfig v else Inl SyntaxError)"

section \<open>The time stamp\<close>

text \<open>
  \<open>time.Now()\<close> as the fields that \<open>Format\<close> reads: the date and the clock in the local
  zone, and the offset of the zone east of UTC in seconds. \<open>appendInt\<close> is the helper of
  package \<open>time\<close> that writes an integer with a minus sign when it is negative and with
  zeros in front up to a width. \<open>FormatRFC3339\<close> is \<open>Format(time.RFC3339)\<close>, the layout
  \<open>2006-01-02T15:04:05Z07:00\<close>: the zone is \<open>Z\<close> for the offset 0 and otherwise a sign, hours
  and minutes, from the offset divided by 60 with the quotient rounded towards zero.
\<close>

record Time =
  Year :: int
  Month :: int
  Day :: int
  Hour :: int
  Minute :: int
  Second :: int
  Offset :: int

definition appendInt :: "int \<Rightarrow> nat \<Rightarrow> string" where
  "appendInt x width =
     (let u = (if x < 0 then - x else x);
          ds = digitsOf u
      in (if x < 0 then ''-'' else []) @ replicate (width - length ds) (CHR ''0'') @ ds)"

definition formatZone :: "int \<Rightarrow> string" where
  "formatZone offset =
     (if offset = 0 then ''Z''
      else (let zone = (if offset < 0 then - ((- offset) div 60) else offset div 60);
                z = (if zone < 0 then - zone else zone)
            in (if zone < 0 then ''-'' else ''+'')
               @ appendInt (z div 60) 2 @ '':'' @ appendInt (z mod 60) 2))"

definition FormatRFC3339 :: "Time \<Rightarrow> string" where
  "FormatRFC3339 t =
     appendInt (Year t) 4 @ ''-'' @ appendInt (Month t) 2 @ ''-'' @ appendInt (Day t) 2
     @ ''T'' @ appendInt (Hour t) 2 @ '':'' @ appendInt (Minute t) 2 @ '':''
     @ appendInt (Second t) 2 @ formatZone (Offset t)"

section \<open>The preference store\<close>

text \<open>
  The file system as the store uses it: the contents of the files that can be read, and
  for each path whether \<open>os.WriteFile\<close> to it succeeds (after \<open>os.MkdirAll\<close> has tried to
  create the parent directories; its own error is dropped by the source). A write that
  fails leaves the files as they are, and a file that was written can be read back.
\<close>

record filesystem =
  files :: "string \<rightharpoonup> string"
  canWrite :: "string \<Rightarrow> bool"

datatype io_error = ReadFailed | WriteFailed

definition ReadFile :: "filesystem \<Rightarrow> string \<Rightarrow> io_error + string" where
  "ReadFile fs p = (case files fs p of None \<Rightarrow> Inl ReadFailed | Some b \<Rightarrow> Inr b)"

definition WriteFile :: "filesystem \<Rightarrow> string \<Rightarrow> string \<Rightarrow> io_error option \<times> filesystem" where
  "WriteFile fs p b =
     (if canWrite fs p then (None, fs\<lparr>files := (files fs)(p \<mapsto> b)\<rparr>)
      else (Some WriteFailed, fs))"

text \<open>
  \<open>saveLastSelections\<close> and \<open>loadLastSelections\<close>. The argument \<open>now\<close> is the value of
  \<open>time.Now()\<close>. The result of \<open>saveLastSelections\<close> is the returned error (\<open>None\<close> for
  \<open>nil\<close>) and the file system after the call.
\<close>

definition saveLastSelections ::
  "filesystem \<Rightarrow> string \<Rightarrow> Time \<Rightarrow> int list option \<Rightarrow> io_error option \<times> filesystem" where
  "saveLastSelections fs p now idxs =
     (let cfg = \<lparr>LastSelections = idxs, SavedAt = FormatRFC3339 now\<rparr>;
          b = MarshalIndent cfg
      in WriteFile fs p b)"

datatype load_error = FileError io_error | JsonError json_error

definition loadLastSelections :: "filesystem \<Rightarrow> string \<Rightarrow> load_error + int list option" where
  "loadLastSelections fs p =
     (case ReadFile fs p of
        Inl err \<Rightarrow> Inl (FileError err)
      | Inr b \<Rightarrow>
          (case Unmarshal b of
             Inl err \<Rightarrow> Inl (JsonError err)
           | Inr cfg \<Rightarrow> Inr (LastSelections cfg)))"

section \<open>The catalog and the run\<close>

text \<open>
  The package-level catalog \<open>tasks\<close>, the command-line flags, and what \<open>main\<close> takes from
  its environment: the result of \<open>filepath.Abs\<close> (an error text or the absolute path),
  whether the file \<open>artisan\<close> exists there, the path \<open>getConfigPath\<close> returned (its error
  is dropped by the source), the file system, the time, the answer of
  \<open>survey.AskOne\<close> to the options and the default it is given (an error text or the picked
  labels), and \<open>cmd.Run\<close>: from the state of the machine, the working directory and the
  argument vector to the error of the run (\<open>None\<close> for \<open>nil\<close>) and the state afterwards.
\<close>

record Task =
  Label :: string
  Cmd :: "string list"

definition tasks :: "Task list" where
  "tasks =
     [\<lparr>Label = ''php artisan optimize:clear'', Cmd = [''php'', ''artisan'', ''optimize:clear'']\<rparr>,
      \<lparr>Label = ''php artisan config:clear'', Cmd = [''php'', ''artisan'', ''config:clear'']\<rparr>,
      \<lparr>Label = ''php artisan route:clear'', Cmd = [''php'', ''artisan'', ''route:clear'']\<rparr>,
      \<lparr>Label = ''php artisan cache:clear'', Cmd = [''php'', ''artisan'', ''cache:clear'']\<rparr>]"

record flags =
  projectPath :: string
  useLast :: bool
  numbers :: string
  noColor :: bool
  noSave :: bool

text \<open>
  Errors and console lines are values. \<open>UnableToResolvePath\<close> is
  \<open>"unable to resolve path: %w"\<close>, \<open>Parse\<close> an error of \<open>parseNumbers\<close>, \<open>CouldNotLoad\<close> is
  \<open>"could not load last selections: %w"\<close>, \<open>NoLastSelectionsSaved\<close> and
  \<open>NoCommandsSelected\<close> are the two \<open>errors.New\<close> texts, and \<open>Prompt\<close> is an error of the
  picker. A message is one call of \<open>info\<close>, \<open>warn\<close>, \<open>ok\<close>, \<open>step\<close> or \<open>errMsg\<close>;
  \<open>ErrFatal\<close> is the line \<open>fail\<close> prints before \<open>os.Exit(1)\<close>. The flag \<open>noColor\<close> changes
  only the decoration of the lines.
\<close>

datatype error =
  UnableToResolvePath string
  | Parse parse_error
  | CouldNotLoad load_error
  | NoLastSelectionsSaved
  | Prompt string
  | NoCommandsSelected

datatype message =
  InfoProjectPath string
  | WarnArtisanNotFound
  | WarnSkippingInvalidIndex int
  | OkExecuting
  | StepRunning "string list"
  | ErrRunning string string
  | OkDone
  | OkAllExecuted
  | ErrFatal error

record 'w world =
  absPath :: "string + string"
  artisanExists :: bool
  cfgPath :: string
  fsys :: filesystem
  clock :: Time
  askOne :: "string list \<Rightarrow> string list option \<Rightarrow> string + string list"
  runCmd :: "'w \<Rightarrow> string \<Rightarrow> string list \<Rightarrow> string option \<times> 'w"
  procs :: 'w

text \<open>
  What a run leaves behind: the exit status, the console lines in order, the commands that
  were run with the error of each run, the file system and the state of the machine.
\<close>

record 'w outcome =
  exitCode :: int
  console :: "message list"
  launched :: "(Task \<times> string option) list"
  fsAfter :: filesystem
  procsAfter :: 'w

text \<open>
  The interactive picker: the options, the default computed from the loaded selection
  (\<open>pickerDefault\<close>, \<open>None\<close> when \<open>prompt.Default\<close> is not set), and the translation of the
  picked labels back to indices.
\<close>

definition runAllLabel :: string where
  "runAllLabel = ''[Run ALL]''"

definition opts :: "string list" where
  "opts = runAllLabel # map Label tasks"

fun preselect :: "int list \<Rightarrow> string list \<Rightarrow> string list" where
  "preselect [] def = def"
| "preselect (i # rest) def =
     (if i \<ge> 1 \<and> i \<le> int (length tasks)
      then preselect rest (def @ [Label (tasks ! nat (i - 1))])
      else preselect rest def)"

definition pickerDefault :: "load_error + int list option \<Rightarrow> string list option" where
  "pickerDefault loaded =
     (case loaded of
        Inl err \<Rightarrow> None
      | Inr lastSel \<Rightarrow>
          if length (elems lastSel) > 0 then
            Some (if length (elems lastSel) = length tasks then [] @ [runAllLabel]
                  else preselect (elems lastSel) [])
          else None)"

fun labelIndex :: "Task list \<Rightarrow> nat \<Rightarrow> string \<Rightarrow> nat option" where
  "labelIndex [] i p = None"
| "labelIndex (t # ts) i p = (if Label t = p then Some i else labelIndex ts (Suc i) p)"

fun translate :: "string list \<Rightarrow> int list \<Rightarrow> int list" where
  "translate [] selectedIdxs = selectedIdxs"
| "translate (p # picks) selectedIdxs =
     (case labelIndex tasks 0 p of
        None \<Rightarrow> translate picks selectedIdxs
      | Some i \<Rightarrow> translate picks (selectedIdxs @ [int i + 1]))"

definition translatePicks :: "string list \<Rightarrow> int list" where
  "translatePicks picks =
     (let runAll = (runAllLabel \<in> set picks)
      in if runAll then map (\<lambda>i. int i + 1) [0..<length tasks]
         else translate picks [])"

text \<open>The \<open>switch\<close> of \<open>main\<close> that determines \<open>selectedIdxs\<close>.\<close>

definition selectIndices :: "flags \<Rightarrow> 'w world \<Rightarrow> error + int list" where
  "selectIndices fl w =
     (if numbers fl \<noteq> [] then
        (case parseNumbers (numbers fl) (int (length tasks)) of
           Inl err \<Rightarrow> Inl (Parse err)
         | Inr idxs \<Rightarrow> Inr idxs)
      else if useLast fl then
        (case loadLastSelections (fsys w) (cfgPath w) of
           Inl err \<Rightarrow> Inl (CouldNotLoad err)
         | Inr lastSel \<Rightarrow>
             if length (elems lastSel) = 0 then Inl NoLastSelectionsSaved
             else Inr (elems lastSel))
      else
        (case askOne w opts (pickerDefault (loadLastSelections (fsys w) (cfgPath w))) of
           Inl err \<Rightarrow> Inl (Prompt err)
         | Inr picks \<Rightarrow> Inr (translatePicks picks)))"

text \<open>
  The loop of \<open>main\<close> over \<open>selectedIdxs\<close>: the lines it prints, the commands it runs and
  the state of the machine afterwards.
\<close>

fun execute ::
  "('w \<Rightarrow> string \<Rightarrow> string list \<Rightarrow> string option \<times> 'w) \<Rightarrow> string \<Rightarrow> int list \<Rightarrow> 'w
     \<Rightarrow> message list \<times> (Task \<times> string option) list \<times> 'w" where
  "execute run dir [] st = ([], [], st)"
| "execute run dir (idx # rest) st =
     (if idx < 1 \<or> idx > int (length tasks) then
        (case execute run dir rest st of
           (msgs, runs, st') \<Rightarrow> (WarnSkippingInvalidIndex idx # msgs, runs, st'))
      else
        (let task = tasks ! nat (idx - 1)
         in case run st dir (Cmd task) of
              (err, st1) \<Rightarrow>
                (case execute run dir rest st1 of
                   (msgs, runs, st') \<Rightarrow>
                     (StepRunning (Cmd task)
                        # (case err of None \<Rightarrow> OkDone | Some e \<Rightarrow> ErrRunning (Label task) e)
                        # msgs,
                      (task, err) # runs, st'))))"

text \<open>
  \<open>fail\<close> ends the run with status 1. \<open>main\<close> saves the selection unless \<open>noSave\<close> is set,
  and drops the error of the save (\<open>_ = saveLastSelections(...)\<close>); it returns normally, with
  status 0, after the loop.
\<close>

definition fail :: "'w world \<Rightarrow> message list \<Rightarrow> error \<Rightarrow> 'w outcome" where
  "fail w msgs err =
     \<lparr>exitCode = 1, console = msgs @ [ErrFatal err], launched = [],
      fsAfter = fsys w, procsAfter = procs w\<rparr>"

definition main :: "flags \<Rightarrow> 'w world \<Rightarrow> 'w outcome" where
  "main fl w =
     (case absPath w of
        Inl err \<Rightarrow> fail w [] (UnableToResolvePath err)
      | Inr dir \<Rightarrow>
          (let msgs0 = InfoProjectPath dir # (if artisanExists w then [] else [WarnArtisanNotFound])
           in case selectIndices fl w of
                Inl err \<Rightarrow> fail w msgs0 err
              | Inr selectedIdxs \<Rightarrow>
                  if length selectedIdxs = 0 then fail w msgs0 NoCommandsSelected
                  else
                    (let fs' = (if \<not> noSave fl
                                then snd (saveLastSelections (fsys w) (cfgPath w) (clock w)
                                            (Some selectedIdxs))
                                else fsys w)
                     in case execute (runCmd w) dir selectedIdxs (procs w) of
                          (msgs, runs, st') \<Rightarrow>
                            \<lparr>exitCode = 0,
                             console = msgs0 @ [OkExecuting] @ msgs @ [OkAllExecuted],
                             launched = runs, fsAfter = fs', procsAfter = st'\<rparr>)))"

section \<open>Notions and concrete environments used to state the properties of the run\<close>

text \<open>
  An index is in range when it is a position of the catalog, counted from 1; \<open>taskAt\<close> is
  the task at such a position. \<open>isErrorLine\<close> holds of the lines printed through \<open>errMsg\<close>,
  and \<open>failures\<close> lists, for the commands that were run, the error line of each one whose
  run returned an error.
\<close>

definition inRange :: "int \<Rightarrow> bool" where
  "inRange i \<longleftrightarrow> 1 \<le> i \<and> i \<le> int (length tasks)"

definition taskAt :: "int \<Rightarrow> Task" where
  "taskAt i = tasks ! nat (i - 1)"



text \<open>
  Concrete environments for the examples: no flags set; a machine where the project path
  resolves, nothing is saved yet, every write succeeds, the picker returns one label and
  the command \<open>config:clear\<close> fails; the same machine with a saved record that names the
  indices 2 and 7; with a file system that refuses every write; and with a saved record
  whose list is empty.
\<close>

definition demoFlags :: flags where
  "demoFlags =
     \<lparr>projectPath = ''.'', useLast = False, numbers = [], noColor = False, noSave = False\<rparr>"

definition demoWorld :: "unit world" where
  "demoWorld =
     \<lparr>absPath = Inr ''/srv/app'', artisanExists = True,
      cfgPath = ''/home/u/.config/artisan-runner.json'',
      fsys = \<lparr>files = Map.empty, canWrite = (\<lambda>p. True)\<rparr>,
      clock = \<lparr>Year = 2024, Month = 5, Day = 1, Hour = 10, Minute = 0, Second = 0,
               Offset = 7200\<rparr>,
      askOne = (\<lambda>os d. Inr [''php artisan route:clear'']),
      runCmd = (\<lambda>st dir argv.
                  (if argv = [''php'', ''artisan'', ''config:clear''] then Some ''exit status 1''
                   else None, st)),
      procs = ()\<rparr>"

definition staleWorld :: "unit world" where
  "staleWorld =
     demoWorld\<lparr>fsys :=
       \<lparr>files = [''/home/u/.config/artisan-runner.json'' \<mapsto>
                   MarshalIndent \<lparr>LastSelections = Some [2, 7], SavedAt = ''2024-05-01T10:00:00Z''\<rparr>],
        canWrite = (\<lambda>p. True)\<rparr>\<rparr>"

definition readOnlyWorld :: "unit world" where
  "readOnlyWorld = demoWorld\<lparr>fsys := \<lparr>files = Map.empty, canWrite = (\<lambda>p. False)\<rparr>\<rparr>"

definition emptyRecordWorld :: "unit world" where
  "emptyRecordWorld =
     demoWorld\<lparr>fsys :=
       \<lparr>files = [''/home/u/.config/artisan-runner.json'' \<mapsto>
                   MarshalIndent \<lparr>LastSelections = Some [], SavedAt = ''2024-05-01T10:00:00Z''\<rparr>],
        canWrite = (\<lambda>p. True)\<rparr>\<rparr>"

section \<open>Notions used to state the properties of the preference store\<close>

text \<open>
  A plain character is a printable ASCII character that the encoder writes as it is.
  \<open>jsonOf\<close> is the JSON value of a slice, and \<open>elementsText\<close>, \<open>savedAtText\<close> and
  \<open>membersText\<close> name parts of the text that \<open>MarshalIndent\<close> writes: the elements of a
  non-empty array up to its closing bracket, the second member up to the closing brace, and
  both members.
\<close>

definition plainChar :: "char \<Rightarrow> bool" where
  "plainChar c \<longleftrightarrow>
     0x20 \<le> byte c \<and> byte c < 0x80 \<and> c \<noteq> CHR 0x22 \<and> c \<noteq> CHR 0x5C
     \<and> c \<noteq> CHR ''<'' \<and> c \<noteq> CHR ''>'' \<and> c \<noteq> CHR ''&''"

definition elementsText :: "int \<Rightarrow> int list \<Rightarrow> string" where
  "elementsText x xs =
     FormatInt x @ concat (map (\<lambda>y. [CHR '','', CHR 0x0A] @ ''    '' @ FormatInt y) xs)
     @ [CHR 0x0A] @ ''  ]''"

definition jsonOf :: "int list option \<Rightarrow> json" where
  "jsonOf sl = (case sl of None \<Rightarrow> JNull | Some xs \<Rightarrow> JArray (map (\<lambda>y. JNumber (FormatInt y)) xs))"

definition savedAtText :: "string \<Rightarrow> string" where
  "savedAtText s =
     CHR 0x22 # ''saved_at'' @ CHR 0x22 # CHR '':'' # CHR '' '' # CHR 0x22 # s
     @ CHR 0x22 # CHR 0x0A # ''}''"

definition membersText :: "int list option \<Rightarrow> string \<Rightarrow> string" where
  "membersText idxs s =
     CHR 0x22 # ''last_selections'' @ CHR 0x22 # CHR '':'' # CHR '' '' # encodeInts idxs
     @ CHR '','' # CHR 0x0A # CHR '' '' # CHR '' '' # savedAtText s"

section \<open>Properties of the selection parser\<close>

lemma appendUpTo_upto: "appendUpTo i mx out = out @ [i..mx]"
proof (induction i mx out rule: appendUpTo.induct)
  case (1 i mx out)
  show ?case
  proof (cases "i \<le> mx")
    case True
    have "appendUpTo i mx out = appendUpTo (i + 1) mx (out @ [i])"
      using True by (subst appendUpTo.simps) simp
    also have "\<dots> = (out @ [i]) @ [i + 1..mx]"
      using True by (rule "1.IH")
    also have "\<dots> = out @ [i..mx]"
      using True by (simp add: upto_rec1)
    finally show ?thesis .
  next
    case False
    then show ?thesis by (subst appendUpTo.simps) simp
  qed
qed

lemma dedupe_loop_filter:
  "dedupe_loop vs seen out = out @ filter (\<lambda>v. seen v = None) (first_occurrences vs)"
proof (induction vs arbitrary: seen out)
  case Nil
  show ?case by simp
next
  case (Cons v vs)
  show ?case
  proof (cases "seen v = None")
    case True
    have "filter (\<lambda>w. (seen(v \<mapsto> ())) w = None) (first_occurrences vs)
          = filter (\<lambda>w. seen w = None) (filter (\<lambda>y. y \<noteq> v) (first_occurrences vs))"
      by (auto intro: filter_cong)
    with True show ?thesis
      by (simp add: Cons.IH)
  next
    case False
    have "filter (\<lambda>w. seen w = None) (filter (\<lambda>y. y \<noteq> v) (first_occurrences vs))
          = filter (\<lambda>w. seen w = None) (first_occurrences vs)"
      using False by (auto intro: filter_cong)
    with False show ?thesis
      by (simp add: Cons.IH)
  qed
qed

lemma dedupe_first_occurrences: "dedupe xs = first_occurrences xs"
  by (simp add: dedupe_def dedupe_loop_filter)

lemma set_first_occurrences: "set (first_occurrences xs) = set xs"
  by (induction xs) auto

lemma distinct_first_occurrences: "distinct (first_occurrences xs)"
  by (induction xs) (auto simp: set_first_occurrences)


lemma parseNumbers_loop_tokens:
  "parseNumbers_loop parts mx out
     = token_loop (filter (\<lambda>p. p \<noteq> []) (map TrimSpace parts)) mx out"
  by (induction parts arbitrary: out) (simp_all add: Let_def split: sum.splits)

lemma parseNumbers_tokens: "parseNumbers s mx = token_loop (tokens s) mx []"
  by (simp add: parseNumbers_def tokens_def parseNumbers_loop_tokens)

lemma token_loop_valid_prefix:
  "\<forall>t\<in>set pre. t \<noteq> ''0'' \<and> validChoice mx t \<Longrightarrow>
     token_loop (pre @ rest) mx out = token_loop rest mx (out @ map choiceOf pre)"
proof (induction pre arbitrary: out)
  case Nil
  show ?case by simp
next
  case (Cons t pre)
  from Cons.prems obtain n where n: "Atoi t = Inr n" "1 \<le> n" "n \<le> mx" and t: "t \<noteq> ''0''"
    by (auto simp: validChoice_def split: sum.splits)
  from Cons.prems have "\<forall>t\<in>set pre. t \<noteq> ''0'' \<and> validChoice mx t"
    by simp
  then have "token_loop (pre @ rest) mx (out @ [n]) = token_loop rest mx ((out @ [n]) @ map choiceOf pre)"
    by (rule Cons.IH)
  moreover have "choiceOf t = n"
    using n by (simp add: choiceOf_def)
  ultimately show ?case
    using n t by simp
qed

lemma token_loop_zero: "token_loop (''0'' # post) mx out = Inr [1..mx]"
  by (simp add: appendUpTo_upto)

lemma token_loop_bad:
  assumes "b \<noteq> ''0''" and "\<not> validChoice mx b"
  shows "token_loop (b # post) mx out
           = Inl (case Atoi b of Inl err \<Rightarrow> InvalidNumber b | Inr n \<Rightarrow> ChoiceOutOfRange n)"
  using assms by (auto simp: validChoice_def split: sum.splits)

text \<open>
  Claim C1, as the code has it. When the input has a token \<open>"0"\<close> and every token before
  the first such token is a valid choice, \<open>parseNumbers\<close> returns the full sequence
  \<open>[1..mx]\<close>, whatever follows the \<open>"0"\<close>. The tokens before the \<open>"0"\<close> are still checked:
  the loop reads the segments from left to right and returns at the first token that
  decides the result.
\<close>

theorem zero_after_valid_prefix_runs_all:
  assumes "''0'' \<in> set (tokens s)"
    and "\<forall>t\<in>set (takeWhile (\<lambda>t. t \<noteq> ''0'') (tokens s)). validChoice mx t"
  shows "parseNumbers s mx = Inr [1..mx]"
proof -
  let ?pre = "takeWhile (\<lambda>t. t \<noteq> ''0'') (tokens s)"
  let ?rest = "dropWhile (\<lambda>t. t \<noteq> ''0'') (tokens s)"
  from assms(1) have "?rest \<noteq> []"
    by auto
  moreover have "hd ?rest = ''0''"
    using hd_dropWhile [OF \<open>?rest \<noteq> []\<close>] by simp
  ultimately obtain post where rest: "?rest = ''0'' # post"
    by (cases ?rest) auto
  have pre: "\<forall>t\<in>set ?pre. t \<noteq> ''0'' \<and> validChoice mx t"
    using assms(2) by (auto dest: set_takeWhileD)
  have "tokens s = ?pre @ ''0'' # post"
    using rest takeWhile_dropWhile_id [of "\<lambda>t. t \<noteq> ''0''" "tokens s"] by simp
  then have "parseNumbers s mx = token_loop (?pre @ ''0'' # post) mx []"
    by (simp add: parseNumbers_tokens)
  also have "\<dots> = token_loop (''0'' # post) mx ([] @ map choiceOf ?pre)"
    using pre by (rule token_loop_valid_prefix)
  also have "\<dots> = Inr [1..mx]"
    by (rule token_loop_zero)
  finally show ?thesis .
qed

text \<open>An input with a valid choice before the \<open>"0"\<close> and two bad tokens after it.\<close>

theorem zero_after_valid_prefix_runs_all_witness:
  "''0'' \<in> set (tokens ''2, 0,zz,9'')
   \<and> takeWhile (\<lambda>t. t \<noteq> ''0'') (tokens ''2, 0,zz,9'') = [''2'']
   \<and> validChoice 4 ''2''
   \<and> parseNumbers ''2, 0,zz,9'' 4 = Inr [1, 2, 3, 4]"
proof -
  have tk: "tokens ''2, 0,zz,9'' = [''2'', ''0'', ''zz'', ''9'']"
    by code_simp
  have v: "validChoice 4 ''2''"
    by code_simp
  have h1: "''0'' \<in> set (tokens ''2, 0,zz,9'')"
    by (simp add: tk)
  have h2: "\<forall>t\<in>set (takeWhile (\<lambda>t. t \<noteq> ''0'') (tokens ''2, 0,zz,9'')). validChoice 4 t"
    by (simp add: tk v)
  have "[1..4] = [1, 2, 3, 4::int]"
    by code_simp
  with zero_after_valid_prefix_runs_all [OF h1 h2] h1 v show ?thesis
    by (simp add: tk)
qed

text \<open>
  The claim without the condition on the earlier tokens fails: with four tasks, the input
  \<open>"x,0"\<close> has a \<open>"0"\<close> token, and the result is the error for \<open>"x"\<close>.
\<close>

theorem invalid_token_before_zero_counterexample:
  "''0'' \<in> set (tokens ''x,0'') \<and> parseNumbers ''x,0'' 4 = Inl (InvalidNumber ''x'')
   \<and> parseNumbers ''x,0'' 4 \<noteq> Inr [1, 2, 3, 4]"
  by code_simp

text \<open>
  Claim C5. When every token of the input is a valid choice and none is \<open>"0"\<close>,
  \<open>parseNumbers\<close> succeeds and returns the values of the tokens, deduplicated in
  first-occurrence order.
\<close>

theorem valid_choices_deduplicated_in_order:
  assumes "\<forall>t\<in>set (tokens s). t \<noteq> ''0'' \<and> validChoice mx t"
  shows "parseNumbers s mx = Inr (first_occurrences (map choiceOf (tokens s)))"
proof -
  have "parseNumbers s mx = token_loop (tokens s @ []) mx []"
    by (simp add: parseNumbers_tokens)
  also have "\<dots> = token_loop [] mx ([] @ map choiceOf (tokens s))"
    using assms by (rule token_loop_valid_prefix)
  also have "\<dots> = Inr (first_occurrences (map choiceOf (tokens s)))"
    by (simp add: dedupe_first_occurrences)
  finally show ?thesis .
qed

text \<open>The scenario of the specification: four tasks and the input \<open>"2,4,2"\<close>.\<close>

theorem valid_choices_deduplicated_in_order_witness:
  "tokens ''2,4,2'' = [''2'', ''4'', ''2'']
   \<and> validChoice 4 ''2'' \<and> validChoice 4 ''4''
   \<and> map choiceOf (tokens ''2,4,2'') = [2, 4, 2]
   \<and> parseNumbers ''2,4,2'' 4 = Inr [2, 4]"
proof -
  have tk: "tokens ''2,4,2'' = [''2'', ''4'', ''2'']"
    by code_simp
  have v: "validChoice 4 ''2''" "validChoice 4 ''4''"
    by code_simp+
  have c: "choiceOf ''2'' = 2" "choiceOf ''4'' = 4"
    by code_simp+
  have h: "\<forall>t\<in>set (tokens ''2,4,2''). t \<noteq> ''0'' \<and> validChoice 4 t"
    by (simp add: tk v)
  from valid_choices_deduplicated_in_order [OF h] v show ?thesis
    by (simp add: tk c)
qed


lemma parseNumbers_first_decisive:
  assumes "tokens s = pre @ rest"
    and "\<forall>t\<in>set pre. t \<noteq> ''0'' \<and> validChoice mx t"
  shows "parseNumbers s mx = token_loop rest mx (map choiceOf pre)"
  using token_loop_valid_prefix [OF assms(2), of rest "[]"] assms(1)
  by (simp add: parseNumbers_tokens)

text \<open>
  \<open>first_occurrences\<close> is what the library's \<open>remdups\<close>, which keeps last occurrences,
  gives on the reversed list.
\<close>

lemma remdups_snoc: "remdups (ys @ [x]) = filter (\<lambda>y. y \<noteq> x) (remdups ys) @ [x]"
proof (induction ys)
  case Nil
  show ?case by simp
next
  case (Cons a ys)
  show ?case
  proof (cases "a = x")
    case True
    then show ?thesis using Cons.IH by simp
  next
    case False
    then show ?thesis using Cons.IH by simp
  qed
qed

lemma first_occurrences_remdups: "first_occurrences xs = rev (remdups (rev xs))"
proof (induction xs)
  case Nil
  show ?case by simp
next
  case (Cons x xs)
  have "rev (remdups (rev (x # xs))) = x # rev (filter (\<lambda>y. y \<noteq> x) (remdups (rev xs)))"
    by (simp add: remdups_snoc)
  also have "\<dots> = x # filter (\<lambda>y. y \<noteq> x) (rev (remdups (rev xs)))"
    by (simp only: rev_filter)
  finally show ?case
    using Cons.IH by simp
qed

text \<open>
  Claim C6, as the code has it. When a token is not a valid choice and is not \<open>"0"\<close>, and
  every token before it is a valid choice other than \<open>"0"\<close>, \<open>parseNumbers\<close> fails and
  returns no list: with \<open>InvalidNumber\<close> naming the token when \<open>strconv.Atoi\<close> rejects it,
  and with \<open>ChoiceOutOfRange\<close> naming the value otherwise.
\<close>

theorem first_offending_token_fails:
  assumes "tokens s = pre @ b # post"
    and "\<forall>t\<in>set pre. t \<noteq> ''0'' \<and> validChoice mx t"
    and "b \<noteq> ''0''"
    and "\<not> validChoice mx b"
  shows "parseNumbers s mx
           = Inl (case Atoi b of Inl err \<Rightarrow> InvalidNumber b | Inr n \<Rightarrow> ChoiceOutOfRange n)"
  using parseNumbers_first_decisive [OF assms(1,2)] token_loop_bad [OF assms(3,4)]
  by simp

text \<open>One input for each of the two errors.\<close>

theorem first_offending_token_fails_witness:
  "tokens ''1, x7,0'' = [''1''] @ ''x7'' # [''0'']
   \<and> validChoice 4 ''1''
   \<and> ''x7'' \<noteq> ''0'' \<and> \<not> validChoice 4 ''x7''
   \<and> parseNumbers ''1, x7,0'' 4 = Inl (InvalidNumber ''x7'')
   \<and> tokens ''3,5,y'' = [''3''] @ ''5'' # [''y'']
   \<and> validChoice 4 ''3''
   \<and> ''5'' \<noteq> ''0'' \<and> \<not> validChoice 4 ''5''
   \<and> parseNumbers ''3,5,y'' 4 = Inl (ChoiceOutOfRange 5)"
proof -
  have a1: "tokens ''1, x7,0'' = [''1''] @ ''x7'' # [''0'']"
    by code_simp
  have a2: "\<forall>t\<in>set [''1'']. t \<noteq> ''0'' \<and> validChoice 4 t"
    by code_simp
  have a3: "''x7'' \<noteq> ''0''"
    by simp
  have a4: "\<not> validChoice 4 ''x7''"
    by code_simp
  have a5: "Atoi ''x7'' = Inl ErrSyntax"
    by code_simp
  have b1: "tokens ''3,5,y'' = [''3''] @ ''5'' # [''y'']"
    by code_simp
  have b2: "\<forall>t\<in>set [''3'']. t \<noteq> ''0'' \<and> validChoice 4 t"
    by code_simp
  have b3: "''5'' \<noteq> ''0''"
    by simp
  have b4: "\<not> validChoice 4 ''5''"
    by code_simp
  have b5: "Atoi ''5'' = Inr 5"
    by code_simp
  from first_offending_token_fails [OF a1 a2 a3 a4] first_offending_token_fails [OF b1 b2 b3 b4]
  have "parseNumbers ''1, x7,0'' 4 = Inl (InvalidNumber ''x7'')"
    and "parseNumbers ''3,5,y'' 4 = Inl (ChoiceOutOfRange 5)"
    by (simp_all add: a5 b5)
  moreover have "validChoice 4 ''1''" "validChoice 4 ''3''"
    by code_simp+
  ultimately show ?thesis
    using a1 a3 a4 b1 b3 b4 by (intro conjI)
qed

text \<open>
  The claim for a bad token anywhere fails: after a \<open>"0"\<close> token the remaining segments
  are not read, so \<open>"0,abc"\<close> and \<open>"0,9"\<close> succeed with four tasks.
\<close>

theorem invalid_token_after_zero_counterexample:
  "''abc'' \<in> set (tokens ''0,abc'') \<and> Atoi ''abc'' = Inl ErrSyntax
   \<and> ''9'' \<in> set (tokens ''0,9'') \<and> Atoi ''9'' = Inr 9 \<and> \<not> (9::int) \<le> 4
   \<and> parseNumbers ''0,abc'' 4 = Inr [1, 2, 3, 4]
   \<and> parseNumbers ''0,9'' 4 = Inr [1, 2, 3, 4]"
  by code_simp

lemma token_loop_success_valid:
  "token_loop ts mx out = Inr r \<Longrightarrow> ''0'' \<notin> set ts \<Longrightarrow> t \<in> set ts \<Longrightarrow> validChoice mx t"
proof (induction ts arbitrary: out)
  case Nil
  then show ?case by simp
next
  case (Cons a ts)
  from Cons.prems(1,2) obtain n where n: "Atoi a = Inr n" "1 \<le> n" "n \<le> mx"
    and rest: "token_loop ts mx (out @ [n]) = Inr r"
    by (auto split: sum.splits if_splits)
  show ?case
  proof (cases "t = a")
    case True
    with n show ?thesis by (simp add: validChoice_def)
  next
    case False
    with Cons.prems have "t \<in> set ts" "''0'' \<notin> set ts" by auto
    with Cons.IH [OF rest] show ?thesis by blast
  qed
qed

text \<open>
  Claim C10, as the code has it. The expansion to all tasks is tied to the token \<open>"0"\<close>
  itself: without such a token a successful result consists of the values of the tokens
  only, each a valid choice. A token other than \<open>"0"\<close> whose value is \<open>0\<close> fails with
  \<open>ChoiceOutOfRange 0\<close> when the loop reaches it, that is when every token before it is a
  valid choice other than \<open>"0"\<close>.
\<close>

theorem only_literal_zero_runs_all:
  "(''0'' \<notin> set (tokens s) \<and> parseNumbers s mx = Inr r
      \<longrightarrow> r = first_occurrences (map choiceOf (tokens s))
          \<and> (\<forall>t\<in>set (tokens s). validChoice mx t))
   \<and> (tokens s = pre @ z # post \<and> (\<forall>t\<in>set pre. t \<noteq> ''0'' \<and> validChoice mx t)
        \<and> z \<noteq> ''0'' \<and> Atoi z = Inr 0
      \<longrightarrow> parseNumbers s mx = Inl (ChoiceOutOfRange 0))"
proof (intro conjI impI)
  assume a: "''0'' \<notin> set (tokens s) \<and> parseNumbers s mx = Inr r"
  then show v: "\<forall>t\<in>set (tokens s). validChoice mx t"
    using token_loop_success_valid [of "tokens s" mx "[]" r]
    by (simp add: parseNumbers_tokens)
  have "\<forall>t\<in>set (tokens s). t \<noteq> ''0'' \<and> validChoice mx t"
    using a v by auto
  then have "parseNumbers s mx = token_loop [] mx (map choiceOf (tokens s))"
    using parseNumbers_first_decisive [of s "tokens s" "[]" mx] by simp
  with a show "r = first_occurrences (map choiceOf (tokens s))"
    by (simp add: dedupe_first_occurrences)
next
  assume b: "tokens s = pre @ z # post \<and> (\<forall>t\<in>set pre. t \<noteq> ''0'' \<and> validChoice mx t)
        \<and> z \<noteq> ''0'' \<and> Atoi z = Inr 0"
  then have "parseNumbers s mx = token_loop (z # post) mx (map choiceOf pre)"
    using parseNumbers_first_decisive [of s pre "z # post" mx] by simp
  with b show "parseNumbers s mx = Inl (ChoiceOutOfRange 0)"
    by simp
qed

text \<open>The tokens \<open>"00"\<close>, \<open>"+0"\<close> and \<open>"-0"\<close> have the value \<open>0\<close> and are out of range.\<close>

theorem only_literal_zero_runs_all_witness:
  "''0'' \<notin> set (tokens ''3,1'') \<and> parseNumbers ''3,1'' 4 = Inr [3, 1]
   \<and> [3, 1] = first_occurrences (map choiceOf (tokens ''3,1''))
   \<and> tokens ''2, 00 ,0'' = [''2''] @ ''00'' # [''0'']
   \<and> validChoice 4 ''2''
   \<and> ''00'' \<noteq> ''0'' \<and> Atoi ''00'' = Inr 0
   \<and> parseNumbers ''2, 00 ,0'' 4 = Inl (ChoiceOutOfRange 0)
   \<and> Atoi ''+0'' = Inr 0 \<and> parseNumbers ''+0'' 4 = Inl (ChoiceOutOfRange 0)
   \<and> Atoi ''-0'' = Inr 0 \<and> parseNumbers ''-0'' 4 = Inl (ChoiceOutOfRange 0)"
proof -
  have a1: "''0'' \<notin> set (tokens ''3,1'')"
    by code_simp
  have a2: "parseNumbers ''3,1'' 4 = Inr [3, 1]"
    by code_simp
  have b1: "tokens ''2, 00 ,0'' = [''2''] @ ''00'' # [''0'']"
    by code_simp
  have b2: "\<forall>t\<in>set [''2'']. t \<noteq> ''0'' \<and> validChoice 4 t"
    by code_simp
  have b3: "''00'' \<noteq> ''0''"
    by simp
  have b4: "Atoi ''00'' = Inr 0"
    by code_simp
  have c1: "tokens ''+0'' = [] @ ''+0'' # []" "tokens ''-0'' = [] @ ''-0'' # []"
    by code_simp+
  have c2: "Atoi ''+0'' = Inr 0" "Atoi ''-0'' = Inr 0"
    by code_simp+
  note main = only_literal_zero_runs_all
  have r1: "[3, 1] = first_occurrences (map choiceOf (tokens ''3,1''))"
    using main [where s = "''3,1''" and mx = 4 and r = "[3, 1]"] a1 a2 by simp
  have r2: "parseNumbers ''2, 00 ,0'' 4 = Inl (ChoiceOutOfRange 0)"
    using main [where s = "''2, 00 ,0''" and pre = "[''2'']" and z = "''00''"
        and post = "[''0'']" and mx = 4] b1 b2 b3 b4
    by simp
  have r3: "parseNumbers ''+0'' 4 = Inl (ChoiceOutOfRange 0)"
    using main [where s = "''+0''" and pre = "[]" and z = "''+0''" and post = "[]" and mx = 4]
      c1 c2 by simp
  have r4: "parseNumbers ''-0'' 4 = Inl (ChoiceOutOfRange 0)"
    using main [where s = "''-0''" and pre = "[]" and z = "''-0''" and post = "[]" and mx = 4]
      c1 c2 by simp
  have v: "validChoice 4 ''2''"
    by code_simp
  from a1 a2 r1 b1 v b3 b4 r2 c2 r3 r4 show ?thesis
    by (intro conjI)
qed

text \<open>
  Without the condition on the earlier tokens the second part fails: the token \<open>"00"\<close> has
  the value \<open>0\<close>, but after a \<open>"0"\<close> token it is never read and the parse succeeds, and
  after a token that is not a number the error is the one for that earlier token.
\<close>

theorem zero_valued_token_not_reached_counterexample:
  "''00'' \<in> set (tokens ''0,00'') \<and> ''00'' \<noteq> ''0'' \<and> Atoi ''00'' = Inr 0
   \<and> parseNumbers ''0,00'' 4 = Inr [1, 2, 3, 4]
   \<and> parseNumbers ''0,00'' 4 \<noteq> Inl (ChoiceOutOfRange 0)
   \<and> ''00'' \<in> set (tokens ''x,00'')
   \<and> parseNumbers ''x,00'' 4 = Inl (InvalidNumber ''x'')
   \<and> parseNumbers ''x,00'' 4 \<noteq> Inl (ChoiceOutOfRange 0)"
  by code_simp

section \<open>Properties of the run\<close>

lemma length_tasks: "length tasks = 4"
  by (simp add: tasks_def)

lemma execute_in_range:
  assumes "inRange idx" and "run st dir (Cmd (taskAt idx)) = (err, st1)"
    and "execute run dir rest st1 = (msgs, runs, st')"
  shows "execute run dir (idx # rest) st
           = (StepRunning (Cmd (taskAt idx))
                # (case err of None \<Rightarrow> OkDone | Some e \<Rightarrow> ErrRunning (Label (taskAt idx)) e)
                # msgs,
              (taskAt idx, err) # runs, st')"
  using assms by (simp add: inRange_def taskAt_def Let_def split: option.split)

lemma execute_out_of_range:
  assumes "\<not> inRange idx" and "execute run dir rest st = (msgs, runs, st')"
  shows "execute run dir (idx # rest) st = (WarnSkippingInvalidIndex idx # msgs, runs, st')"
  using assms by (auto simp: inRange_def)



lemma execute_launched:
  "map fst (fst (snd (execute run dir sel st))) = map taskAt (filter inRange sel)"
proof (induction sel arbitrary: st)
  case Nil
  show ?case by simp
next
  case (Cons idx rest)
  show ?case
  proof (cases "inRange idx")
    case True
    obtain err st1 where r: "run st dir (Cmd (taskAt idx)) = (err, st1)"
      by (cases "run st dir (Cmd (taskAt idx))")
    obtain msgs runs st' where e: "execute run dir rest st1 = (msgs, runs, st')"
      by (cases "execute run dir rest st1")
    from Cons.IH [of st1] e have "map fst runs = map taskAt (filter inRange rest)"
      by simp
    with True show ?thesis
      by (simp add: execute_in_range [OF True r e] del: execute.simps)
  next
    case False
    obtain msgs runs st' where e: "execute run dir rest st = (msgs, runs, st')"
      by (cases "execute run dir rest st")
    from Cons.IH [of st] e have "map fst runs = map taskAt (filter inRange rest)"
      by simp
    with False show ?thesis
      by (simp add: execute_out_of_range [OF False e] del: execute.simps)
  qed
qed


lemma execute_skipped:
  "i \<in> set sel \<Longrightarrow> \<not> inRange i \<Longrightarrow> WarnSkippingInvalidIndex i \<in> set (fst (execute run dir sel st))"
proof (induction sel arbitrary: st)
  case Nil
  then show ?case by simp
next
  case (Cons idx rest)
  show ?case
  proof (cases "inRange idx")
    case True
    with Cons.prems have i: "i \<in> set rest" by auto
    obtain err st1 where r: "run st dir (Cmd (taskAt idx)) = (err, st1)"
      by (cases "run st dir (Cmd (taskAt idx))")
    obtain msgs runs st' where e: "execute run dir rest st1 = (msgs, runs, st')"
      by (cases "execute run dir rest st1")
    from Cons.IH [OF i Cons.prems(2), of st1] e have "WarnSkippingInvalidIndex i \<in> set msgs"
      by simp
    then show ?thesis
      by (simp add: execute_in_range [OF True r e] del: execute.simps)
  next
    case False
    obtain msgs runs st' where e: "execute run dir rest st = (msgs, runs, st')"
      by (cases "execute run dir rest st")
    show ?thesis
    proof (cases "i = idx")
      case True
      then show ?thesis by (simp add: execute_out_of_range [OF False e] del: execute.simps)
    next
      case ne: False
      with Cons.prems have i: "i \<in> set rest" by auto
      from Cons.IH [OF i Cons.prems(2), of st] e have "WarnSkippingInvalidIndex i \<in> set msgs"
        by simp
      then show ?thesis by (simp add: execute_out_of_range [OF False e] del: execute.simps)
    qed
  qed
qed

lemma main_after_selection:
  assumes "absPath w = Inr dir" and "selectIndices fl w = Inr sel" and "sel \<noteq> []"
  shows "exitCode (main fl w) = 0"
    and "launched (main fl w) = fst (snd (execute (runCmd w) dir sel (procs w)))"
    and "console (main fl w)
           = InfoProjectPath dir # (if artisanExists w then [] else [WarnArtisanNotFound])
             @ [OkExecuting] @ fst (execute (runCmd w) dir sel (procs w)) @ [OkAllExecuted]"
proof -
  obtain msgs runs st' where e: "execute (runCmd w) dir sel (procs w) = (msgs, runs, st')"
    by (cases "execute (runCmd w) dir sel (procs w)")
  with assms show "exitCode (main fl w) = 0"
    and "launched (main fl w) = fst (snd (execute (runCmd w) dir sel (procs w)))"
    and "console (main fl w)
           = InfoProjectPath dir # (if artisanExists w then [] else [WarnArtisanNotFound])
             @ [OkExecuting] @ fst (execute (runCmd w) dir sel (procs w)) @ [OkAllExecuted]"
    by (simp_all add: main_def Let_def)
qed




lemma token_loop_in_range:
  "token_loop ts mx out = Inr r \<Longrightarrow> \<forall>i\<in>set out. 1 \<le> i \<and> i \<le> mx \<Longrightarrow> i \<in> set r \<Longrightarrow> 1 \<le> i \<and> i \<le> mx"
proof (induction ts arbitrary: out)
  case Nil
  then have "set r = set out"
    by (auto simp: dedupe_first_occurrences set_first_occurrences)
  with Nil.prems show ?case
    by simp
next
  case (Cons t ts)
  show ?case
  proof (cases "t = ''0''")
    case True
    with Cons.prems(1) have "r = [1..mx]"
      by (simp add: appendUpTo_upto)
    with Cons.prems(3) show ?thesis by simp
  next
    case False
    with Cons.prems(1) obtain n where n: "Atoi t = Inr n" "1 \<le> n" "n \<le> mx"
      and rest: "token_loop ts mx (out @ [n]) = Inr r"
      by (auto split: sum.splits if_splits)
    from Cons.prems(2) n have "\<forall>i\<in>set (out @ [n]). 1 \<le> i \<and> i \<le> mx"
      by simp
    from Cons.IH [OF rest this Cons.prems(3)] show ?thesis .
  qed
qed

lemma parseNumbers_in_range:
  "parseNumbers s mx = Inr r \<Longrightarrow> i \<in> set r \<Longrightarrow> 1 \<le> i \<and> i \<le> mx"
  using token_loop_in_range [of "tokens s" mx "[]" r i]
  by (simp add: parseNumbers_tokens)

lemma labelIndex_bound: "labelIndex ts i p = Some k \<Longrightarrow> i \<le> k \<and> k < i + length ts"
proof (induction ts arbitrary: i)
  case Nil
  then show ?case by simp
next
  case (Cons t ts)
  show ?case
  proof (cases "Label t = p")
    case True
    with Cons.prems show ?thesis by simp
  next
    case False
    with Cons.prems have "labelIndex ts (Suc i) p = Some k" by simp
    from Cons.IH [OF this] show ?thesis by simp
  qed
qed

lemma translate_in_range:
  "\<forall>j\<in>set acc. inRange j \<Longrightarrow> j \<in> set (translate picks acc) \<Longrightarrow> inRange j"
proof (induction picks arbitrary: acc)
  case Nil
  then show ?case by simp
next
  case (Cons p picks)
  show ?case
  proof (cases "labelIndex tasks 0 p")
    case None
    with Cons.prems(2) have "j \<in> set (translate picks acc)" by simp
    from Cons.IH [OF Cons.prems(1) this] show ?thesis .
  next
    case (Some k)
    from labelIndex_bound [OF Some] have "inRange (int k + 1)"
      by (simp add: inRange_def)
    with Cons.prems(1) have a: "\<forall>j\<in>set (acc @ [int k + 1]). inRange j" by simp
    from Cons.prems(2) Some have "j \<in> set (translate picks (acc @ [int k + 1]))" by simp
    from Cons.IH [OF a this] show ?thesis .
  qed
qed

lemma translatePicks_in_range: "j \<in> set (translatePicks picks) \<Longrightarrow> inRange j"
proof (cases "runAllLabel \<in> set picks")
  case True
  assume "j \<in> set (translatePicks picks)"
  with True show ?thesis
    by (auto simp: translatePicks_def inRange_def)
next
  case False
  assume "j \<in> set (translatePicks picks)"
  with False have "j \<in> set (translate picks [])"
    by (simp add: translatePicks_def)
  then show ?thesis
    using translate_in_range [of "[]" j picks] by simp
qed

text \<open>
  Claim C2, as the code has it. A selection that comes from the numeric parse or from the
  interactive picker holds only indices in range. A selection loaded under \<open>--use-last\<close>
  is passed on as it was read; the loop over the selection runs the tasks at the in-range
  indices only and prints a warning for every index that is out of range.
\<close>

theorem selection_checked_by_source_or_executor:
  "(selectIndices fl w = Inr sel \<and> (numbers fl \<noteq> [] \<or> \<not> useLast fl)
      \<longrightarrow> (\<forall>i\<in>set sel. inRange i))
   \<and> (absPath w = Inr dir \<and> selectIndices fl w = Inr sel \<and> sel \<noteq> []
      \<longrightarrow> map fst (launched (main fl w)) = map taskAt (filter inRange sel)
          \<and> (\<forall>i\<in>set sel. \<not> inRange i
                \<longrightarrow> WarnSkippingInvalidIndex i \<in> set (console (main fl w))))"
proof (intro conjI impI ballI)
  fix i
  assume a: "selectIndices fl w = Inr sel \<and> (numbers fl \<noteq> [] \<or> \<not> useLast fl)" and i: "i \<in> set sel"
  show "inRange i"
  proof (cases "numbers fl \<noteq> []")
    case True
    with a have "parseNumbers (numbers fl) (int (length tasks)) = Inr sel"
      by (auto simp: selectIndices_def split: sum.splits)
    from parseNumbers_in_range [OF this i] show ?thesis
      by (simp add: inRange_def)
  next
    case False
    with a obtain picks where "sel = translatePicks picks"
      by (auto simp: selectIndices_def split: sum.splits)
    with i show ?thesis
      by (simp add: translatePicks_in_range)
  qed
next
  assume b: "absPath w = Inr dir \<and> selectIndices fl w = Inr sel \<and> sel \<noteq> []"
  then have m: "launched (main fl w) = fst (snd (execute (runCmd w) dir sel (procs w)))"
    "console (main fl w)
       = InfoProjectPath dir # (if artisanExists w then [] else [WarnArtisanNotFound])
         @ [OkExecuting] @ fst (execute (runCmd w) dir sel (procs w)) @ [OkAllExecuted]"
    using main_after_selection [of w dir fl sel] by simp_all
  show "map fst (launched (main fl w)) = map taskAt (filter inRange sel)"
    by (simp add: m(1) execute_launched)
  fix i
  assume "i \<in> set sel" and "\<not> inRange i"
  then have "WarnSkippingInvalidIndex i \<in> set (fst (execute (runCmd w) dir sel (procs w)))"
    by (rule execute_skipped)
  then show "WarnSkippingInvalidIndex i \<in> set (console (main fl w))"
    by (simp add: m(2))
qed

text \<open>A numeric selection, and a run with \<open>--use-last\<close> on the record that names 2 and 7.\<close>

theorem selection_checked_by_source_or_executor_witness:
  "selectIndices (demoFlags\<lparr>numbers := ''2,4,2''\<rparr>) demoWorld = Inr [2, 4]
   \<and> inRange 2 \<and> inRange 4
   \<and> absPath staleWorld = Inr ''/srv/app''
   \<and> selectIndices (demoFlags\<lparr>useLast := True\<rparr>) staleWorld = Inr [2, 7]
   \<and> map fst (launched (main (demoFlags\<lparr>useLast := True\<rparr>) staleWorld)) = [taskAt 2]
   \<and> WarnSkippingInvalidIndex 7 \<in> set (console (main (demoFlags\<lparr>useLast := True\<rparr>) staleWorld))"
proof -
  have s1: "selectIndices (demoFlags\<lparr>numbers := ''2,4,2''\<rparr>) demoWorld = Inr [2, 4]"
    by code_simp
  have n1: "numbers (demoFlags\<lparr>numbers := ''2,4,2''\<rparr>) \<noteq> []"
    by simp
  have a2: "absPath staleWorld = Inr ''/srv/app''"
    by (simp add: staleWorld_def demoWorld_def)
  have s2: "selectIndices (demoFlags\<lparr>useLast := True\<rparr>) staleWorld = Inr [2, 7]"
    by code_simp
  have r: "inRange 2" "\<not> inRange 7"
    by (simp_all add: inRange_def length_tasks)
  note t = selection_checked_by_source_or_executor
  have "\<forall>i\<in>set [2, 4]. inRange i"
    using t [where fl = "demoFlags\<lparr>numbers := ''2,4,2''\<rparr>" and w = demoWorld and sel = "[2, 4]"]
      s1 n1 by blast
  then have i1: "inRange 2" "inRange 4"
    by simp_all
  have "map fst (launched (main (demoFlags\<lparr>useLast := True\<rparr>) staleWorld))
          = map taskAt (filter inRange [2, 7])
        \<and> (\<forall>i\<in>set [2, 7]. \<not> inRange i
              \<longrightarrow> WarnSkippingInvalidIndex i
                    \<in> set (console (main (demoFlags\<lparr>useLast := True\<rparr>) staleWorld)))"
    using t [where fl = "demoFlags\<lparr>useLast := True\<rparr>" and w = staleWorld and sel = "[2, 7]"
        and dir = "''/srv/app''"] a2 s2
    by blast
  with r have
    "map fst (launched (main (demoFlags\<lparr>useLast := True\<rparr>) staleWorld)) = [taskAt 2]"
    "WarnSkippingInvalidIndex 7 \<in> set (console (main (demoFlags\<lparr>useLast := True\<rparr>) staleWorld))"
    by simp_all
  with s1 i1 a2 s2 show ?thesis
    by (intro conjI)
qed

text \<open>
  The selection loaded under \<open>--use-last\<close> from a record that names the index 7 contains 7,
  with four tasks in the catalog.
\<close>

theorem loaded_selection_out_of_range_counterexample:
  "useLast (demoFlags\<lparr>useLast := True\<rparr>) \<and> numbers (demoFlags\<lparr>useLast := True\<rparr>) = []
   \<and> selectIndices (demoFlags\<lparr>useLast := True\<rparr>) staleWorld = Inr [2, 7]
   \<and> \<not> (7 \<le> int (length tasks))"
proof -
  have "selectIndices (demoFlags\<lparr>useLast := True\<rparr>) staleWorld = Inr [2, 7]"
    by code_simp
  then show ?thesis
    by (simp add: demoFlags_def length_tasks)
qed

lemma selectIndices_canWrite:
  "selectIndices fl (w\<lparr>fsys := (fsys w)\<lparr>canWrite := cw\<rparr>\<rparr>) = selectIndices fl w"
  by (simp add: selectIndices_def loadLastSelections_def ReadFile_def)

lemma saveLastSelections_result:
  "fst (saveLastSelections fs p now idxs) = (if canWrite fs p then None else Some WriteFailed)"
  by (simp add: saveLastSelections_def WriteFile_def Let_def)

text \<open>
  Claim C3, as the code has it. \<open>saveLastSelections\<close> returns the error of the write to its
  caller. \<open>main\<close> drops it: the exit status, the console lines and the commands run do not
  depend on which writes succeed.
\<close>

theorem save_error_is_dropped_by_main:
  "fst (saveLastSelections fs p now idxs) = (if canWrite fs p then None else Some WriteFailed)
   \<and> exitCode (main fl (w\<lparr>fsys := (fsys w)\<lparr>canWrite := cw\<rparr>\<rparr>)) = exitCode (main fl w)
   \<and> console (main fl (w\<lparr>fsys := (fsys w)\<lparr>canWrite := cw\<rparr>\<rparr>)) = console (main fl w)
   \<and> launched (main fl (w\<lparr>fsys := (fsys w)\<lparr>canWrite := cw\<rparr>\<rparr>)) = launched (main fl w)"
proof -
  let ?w = "w\<lparr>fsys := (fsys w)\<lparr>canWrite := cw\<rparr>\<rparr>"
  have s: "selectIndices fl ?w = selectIndices fl w"
    by (rule selectIndices_canWrite)
  have "exitCode (main fl ?w) = exitCode (main fl w)
        \<and> console (main fl ?w) = console (main fl w)
        \<and> launched (main fl ?w) = launched (main fl w)"
  proof (cases "absPath w")
    case (Inl err)
    then show ?thesis
      by (simp add: main_def fail_def)
  next
    case (Inr dir)
    show ?thesis
    proof (cases "selectIndices fl w")
      case (Inl err)
      with Inr s show ?thesis
        by (simp add: main_def fail_def Let_def)
    next
      case sel: (Inr sel)
      obtain msgs runs st' where e: "execute (runCmd w) dir sel (procs w) = (msgs, runs, st')"
        by (cases "execute (runCmd w) dir sel (procs w)")
      with Inr sel s show ?thesis
        by (simp add: main_def fail_def Let_def)
    qed
  qed
  then show ?thesis
    by (simp add: saveLastSelections_result)
qed

text \<open>The same run on a machine where every write succeeds and where every write fails.\<close>

theorem save_error_is_dropped_by_main_witness:
  "fst (saveLastSelections (fsys readOnlyWorld) (cfgPath readOnlyWorld) (clock readOnlyWorld) (Some [3]))
     = Some WriteFailed
   \<and> readOnlyWorld = demoWorld\<lparr>fsys := (fsys demoWorld)\<lparr>canWrite := (\<lambda>p. False)\<rparr>\<rparr>
   \<and> exitCode (main (demoFlags\<lparr>numbers := ''3''\<rparr>) readOnlyWorld)
       = exitCode (main (demoFlags\<lparr>numbers := ''3''\<rparr>) demoWorld)
   \<and> console (main (demoFlags\<lparr>numbers := ''3''\<rparr>) readOnlyWorld)
       = console (main (demoFlags\<lparr>numbers := ''3''\<rparr>) demoWorld)
   \<and> launched (main (demoFlags\<lparr>numbers := ''3''\<rparr>) readOnlyWorld)
       = launched (main (demoFlags\<lparr>numbers := ''3''\<rparr>) demoWorld)"
proof -
  have w: "readOnlyWorld = demoWorld\<lparr>fsys := (fsys demoWorld)\<lparr>canWrite := (\<lambda>p. False)\<rparr>\<rparr>"
    by (simp add: readOnlyWorld_def demoWorld_def)
  have c: "\<not> canWrite (fsys readOnlyWorld) (cfgPath readOnlyWorld)"
    by (simp add: readOnlyWorld_def)
  note t = save_error_is_dropped_by_main
    [where fs = "fsys readOnlyWorld" and p = "cfgPath readOnlyWorld"
      and now = "clock readOnlyWorld" and idxs = "Some [3]"
      and fl = "demoFlags\<lparr>numbers := ''3''\<rparr>" and w = demoWorld and cw = "\<lambda>p. False"]
  from t c w show ?thesis
    by simp
qed

text \<open>
  A run without \<open>--no-save\<close> whose save fails: the status is 0 and no line of the console
  mentions the failure.
\<close>

theorem save_error_not_surfaced_counterexample:
  "noSave (demoFlags\<lparr>numbers := ''3''\<rparr>) = False
   \<and> selectIndices (demoFlags\<lparr>numbers := ''3''\<rparr>) readOnlyWorld = Inr [3]
   \<and> fst (saveLastSelections (fsys readOnlyWorld) (cfgPath readOnlyWorld) (clock readOnlyWorld)
            (Some [3])) = Some WriteFailed
   \<and> exitCode (main (demoFlags\<lparr>numbers := ''3''\<rparr>) readOnlyWorld) = 0
   \<and> console (main (demoFlags\<lparr>numbers := ''3''\<rparr>) readOnlyWorld)
       = [InfoProjectPath ''/srv/app'', OkExecuting,
          StepRunning [''php'', ''artisan'', ''route:clear''], OkDone, OkAllExecuted]"
  by code_simp

text \<open>
  Claim C8, as the code has it. With \<open>--use-last\<close> and no \<open>--numbers\<close>, when the record
  cannot be loaded the run ends with status 1, runs no command, and its last line is the
  error \<open>CouldNotLoad\<close>; when the record is loaded and its list is empty, the same with the
  error \<open>NoLastSelectionsSaved\<close>. A record that does not exist cannot be loaded.
\<close>

theorem use_last_without_usable_record_fails:
  assumes "numbers fl = []" and "useLast fl" and "absPath w = Inr dir"
  shows
    "(loadLastSelections (fsys w) (cfgPath w) = Inl e
        \<longrightarrow> exitCode (main fl w) = 1 \<and> launched (main fl w) = []
            \<and> console (main fl w)
                = InfoProjectPath dir # (if artisanExists w then [] else [WarnArtisanNotFound])
                  @ [ErrFatal (CouldNotLoad e)])
     \<and> (loadLastSelections (fsys w) (cfgPath w) = Inr lastSel \<and> elems lastSel = []
        \<longrightarrow> exitCode (main fl w) = 1 \<and> launched (main fl w) = []
            \<and> console (main fl w)
                = InfoProjectPath dir # (if artisanExists w then [] else [WarnArtisanNotFound])
                  @ [ErrFatal NoLastSelectionsSaved])
     \<and> (files (fsys w) (cfgPath w) = None
        \<longrightarrow> loadLastSelections (fsys w) (cfgPath w) = Inl (FileError ReadFailed))"
proof -
  let ?m0 = "InfoProjectPath dir # (if artisanExists w then [] else [WarnArtisanNotFound])"
  have p1: "loadLastSelections (fsys w) (cfgPath w) = Inl e
        \<longrightarrow> exitCode (main fl w) = 1 \<and> launched (main fl w) = []
            \<and> console (main fl w) = ?m0 @ [ErrFatal (CouldNotLoad e)]"
  proof
    assume "loadLastSelections (fsys w) (cfgPath w) = Inl e"
    with assms have "selectIndices fl w = Inl (CouldNotLoad e)"
      by (simp add: selectIndices_def)
    with assms(3) show "exitCode (main fl w) = 1 \<and> launched (main fl w) = []
            \<and> console (main fl w) = ?m0 @ [ErrFatal (CouldNotLoad e)]"
      by (simp add: main_def fail_def Let_def)
  qed
  have p2: "loadLastSelections (fsys w) (cfgPath w) = Inr lastSel \<and> elems lastSel = []
        \<longrightarrow> exitCode (main fl w) = 1 \<and> launched (main fl w) = []
            \<and> console (main fl w) = ?m0 @ [ErrFatal NoLastSelectionsSaved]"
  proof
    assume "loadLastSelections (fsys w) (cfgPath w) = Inr lastSel \<and> elems lastSel = []"
    with assms have "selectIndices fl w = Inl NoLastSelectionsSaved"
      by (simp add: selectIndices_def)
    with assms(3) show "exitCode (main fl w) = 1 \<and> launched (main fl w) = []
            \<and> console (main fl w) = ?m0 @ [ErrFatal NoLastSelectionsSaved]"
      by (simp add: main_def fail_def Let_def)
  qed
  have p3: "files (fsys w) (cfgPath w) = None
        \<longrightarrow> loadLastSelections (fsys w) (cfgPath w) = Inl (FileError ReadFailed)"
    by (simp add: loadLastSelections_def ReadFile_def)
  from p1 p2 p3 show ?thesis
    by simp
qed

text \<open>A machine without a record, and one whose record has an empty list.\<close>

theorem use_last_without_usable_record_fails_witness:
  "numbers (demoFlags\<lparr>useLast := True\<rparr>) = [] \<and> useLast (demoFlags\<lparr>useLast := True\<rparr>)
   \<and> absPath demoWorld = Inr ''/srv/app'' \<and> absPath emptyRecordWorld = Inr ''/srv/app''
   \<and> files (fsys demoWorld) (cfgPath demoWorld) = None
   \<and> loadLastSelections (fsys demoWorld) (cfgPath demoWorld) = Inl (FileError ReadFailed)
   \<and> exitCode (main (demoFlags\<lparr>useLast := True\<rparr>) demoWorld) = 1
   \<and> launched (main (demoFlags\<lparr>useLast := True\<rparr>) demoWorld) = []
   \<and> console (main (demoFlags\<lparr>useLast := True\<rparr>) demoWorld)
       = [InfoProjectPath ''/srv/app'', ErrFatal (CouldNotLoad (FileError ReadFailed))]
   \<and> loadLastSelections (fsys emptyRecordWorld) (cfgPath emptyRecordWorld) = Inr (Some [])
   \<and> exitCode (main (demoFlags\<lparr>useLast := True\<rparr>) emptyRecordWorld) = 1
   \<and> launched (main (demoFlags\<lparr>useLast := True\<rparr>) emptyRecordWorld) = []
   \<and> console (main (demoFlags\<lparr>useLast := True\<rparr>) emptyRecordWorld)
       = [InfoProjectPath ''/srv/app'', ErrFatal NoLastSelectionsSaved]"
proof -
  have f: "numbers (demoFlags\<lparr>useLast := True\<rparr>) = []" "useLast (demoFlags\<lparr>useLast := True\<rparr>)"
    by (simp_all add: demoFlags_def)
  have a: "absPath demoWorld = Inr ''/srv/app''" "absPath emptyRecordWorld = Inr ''/srv/app''"
    by (simp_all add: demoWorld_def emptyRecordWorld_def)
  have x: "artisanExists demoWorld" "artisanExists emptyRecordWorld"
    by (simp_all add: demoWorld_def emptyRecordWorld_def)
  have n: "files (fsys demoWorld) (cfgPath demoWorld) = None"
    by (simp add: demoWorld_def)
  have l: "loadLastSelections (fsys emptyRecordWorld) (cfgPath emptyRecordWorld) = Inr (Some [])"
    by code_simp
  have el: "elems (Some []) = ([] :: int list)"
    by (simp add: elems_def)
  note t1 = use_last_without_usable_record_fails [OF f a(1), where e = "FileError ReadFailed"]
  note t2 = use_last_without_usable_record_fails [OF f a(2), where lastSel = "Some []"]
  from t1 n have l1: "loadLastSelections (fsys demoWorld) (cfgPath demoWorld) = Inl (FileError ReadFailed)"
    by blast
  with t1 x have r1: "exitCode (main (demoFlags\<lparr>useLast := True\<rparr>) demoWorld) = 1"
    "launched (main (demoFlags\<lparr>useLast := True\<rparr>) demoWorld) = []"
    "console (main (demoFlags\<lparr>useLast := True\<rparr>) demoWorld)
       = [InfoProjectPath ''/srv/app'', ErrFatal (CouldNotLoad (FileError ReadFailed))]"
    by simp_all
  from t2 l el x have r2: "exitCode (main (demoFlags\<lparr>useLast := True\<rparr>) emptyRecordWorld) = 1"
    "launched (main (demoFlags\<lparr>useLast := True\<rparr>) emptyRecordWorld) = []"
    "console (main (demoFlags\<lparr>useLast := True\<rparr>) emptyRecordWorld)
       = [InfoProjectPath ''/srv/app'', ErrFatal NoLastSelectionsSaved]"
    by simp_all
  from f a n l1 r1 l r2 show ?thesis
    by (intro conjI)
qed

text \<open>
  Without a record the condition reported is \<open>CouldNotLoad\<close>, not
  \<open>NoLastSelectionsSaved\<close>.
\<close>

theorem no_record_reports_load_error_counterexample:
  "useLast (demoFlags\<lparr>useLast := True\<rparr>) \<and> numbers (demoFlags\<lparr>useLast := True\<rparr>) = []
   \<and> files (fsys demoWorld) (cfgPath demoWorld) = None
   \<and> exitCode (main (demoFlags\<lparr>useLast := True\<rparr>) demoWorld) = 1
   \<and> console (main (demoFlags\<lparr>useLast := True\<rparr>) demoWorld)
       = [InfoProjectPath ''/srv/app'', ErrFatal (CouldNotLoad (FileError ReadFailed))]
   \<and> ErrFatal NoLastSelectionsSaved \<notin> set (console (main (demoFlags\<lparr>useLast := True\<rparr>) demoWorld))"
  by code_simp

text \<open>
  The default of the picker. When the loaded list is not as long as the catalog, the
  labels of its in-range indices are checked, in order.
\<close>

lemma preselect_labels:
  "preselect xs def = def @ map (\<lambda>i. Label (taskAt i)) (filter inRange xs)"
  by (induction xs arbitrary: def) (simp_all add: inRange_def taskAt_def)

lemma pickerDefault_loaded:
  "pickerDefault (Inr sl) =
     (if elems sl = [] then None
      else if length (elems sl) = length tasks then Some [runAllLabel]
      else Some (map (\<lambda>i. Label (taskAt i)) (filter inRange (elems sl))))"
  by (simp add: pickerDefault_def preselect_labels)

text \<open>
  For a list without duplicates whose indices are all in range, having the length of the
  catalog is the same as covering the catalog.
\<close>

lemma covers_iff_length:
  assumes "distinct xs" and "\<forall>i\<in>set xs. inRange i"
  shows "length xs = length tasks \<longleftrightarrow> set xs = {1..int (length tasks)}"
proof
  assume l: "length xs = length tasks"
  have sub: "set xs \<subseteq> {1..int (length tasks)}"
    using assms(2) by (auto simp: inRange_def)
  have "card (set xs) = card {1..int (length tasks)}"
    using assms(1) l by (simp add: distinct_card)
  with sub show "set xs = {1..int (length tasks)}"
    by (simp add: card_subset_eq)
next
  assume "set xs = {1..int (length tasks)}"
  then have "card (set xs) = length tasks"
    by simp
  with assms(1) show "length xs = length tasks"
    by (simp add: distinct_card)
qed

text \<open>
  Claim C4. The source takes the loaded selection to cover the catalog when it has as many
  entries as the catalog. The record \<open>[1, 2, 3, 9]\<close> has four entries and does not cover the
  four tasks (4 is missing, 9 is out of range), and only the "run all" option is checked;
  likewise for \<open>[1, 1, 1, 1]\<close>. With another length the out-of-range index is ignored.
\<close>

theorem picker_default_run_all_by_length:
  "pickerDefault (Inr (Some [1, 2, 3, 9])) = Some [runAllLabel]
   \<and> length [1, 2, 3, 9 :: int] = length tasks
   \<and> 4 \<notin> set [1, 2, 3, 9 :: int] \<and> \<not> inRange 9
   \<and> pickerDefault (Inr (Some [1, 1, 1, 1])) = Some [runAllLabel]
   \<and> pickerDefault (Inr (Some [1, 2, 9])) = Some [Label (taskAt 1), Label (taskAt 2)]"
  by code_simp

section \<open>Properties of the preference store\<close>

text \<open>Decimal digits: what \<open>FormatInt\<close> writes, \<open>strconv\<close> and the number scanner read back.\<close>

lemma digit_char:
  assumes "0 \<le> n" and "n < 10"
  shows "isDigit (char_of (48 + nat n))" and "digitVal (char_of (48 + nat n)) = n"
proof -
  have m: "(48 + nat n) mod 256 = 48 + nat n"
    using assms by simp
  have o: "(of_char (char_of (48 + nat n)) :: nat) = 48 + nat n"
    by (simp only: of_char_of m)
  show "isDigit (char_of (48 + nat n))"
    using assms by (simp add: isDigit_def o)
  have "(of_char (char_of (48 + nat n)) :: int) = int (of_char (char_of (48 + nat n)))"
    by (simp only: of_nat_of_char)
  then show "digitVal (char_of (48 + nat n)) = n"
    using assms by (simp add: digitVal_def o)
qed

lemma isDigit_plain: "isDigit c \<Longrightarrow> plainChar c"
  by (auto simp: isDigit_def plainChar_def byte_def)

lemma isDigit_not:
  assumes "isDigit c"
  shows "c \<noteq> CHR ''-''" "c \<noteq> CHR ''+''" "c \<noteq> CHR ''{''" "c \<noteq> CHR ''[''" "c \<noteq> CHR '']''"
    "c \<noteq> CHR 0x22" "\<not> isSpace c"
  using assms by (auto simp: isDigit_def isSpace_def)

lemma digitsOf_digits: "0 \<le> n \<Longrightarrow> digitsOf n \<noteq> [] \<and> list_all isDigit (digitsOf n)"
proof (induction n rule: digitsOf.induct)
  case (1 n)
  show ?case
  proof (cases "n < 10")
    case True
    with "1.prems" show ?thesis
      by (subst digitsOf.simps, subst digitsOf.simps) (simp add: digit_char)
  next
    case False
    with "1.prems" have ih: "digitsOf (n div 10) \<noteq> [] \<and> list_all isDigit (digitsOf (n div 10))"
      using "1.IH" by simp
    have d: "isDigit (char_of (48 + nat (n mod 10)))"
      by (rule digit_char) simp_all
    have "digitsOf n = digitsOf (n div 10) @ [char_of (48 + nat (n mod 10))]"
      using False by (subst digitsOf.simps) simp
    with ih d show ?thesis
      by simp
  qed
qed

lemma parseDigits_snoc:
  "parseDigits a (xs @ [d])
     = (case parseDigits a xs of
          None \<Rightarrow> None
        | Some v \<Rightarrow> if isDigit d then Some (v * 10 + digitVal d) else None)"
  by (induction xs arbitrary: a) simp_all

lemma parseDigits_digitsOf: "0 \<le> n \<Longrightarrow> parseDigits 0 (digitsOf n) = Some n"
proof (induction n rule: digitsOf.induct)
  case (1 n)
  show ?case
  proof (cases "n < 10")
    case True
    have "digitsOf n = [char_of (48 + nat n)]"
      using True by (subst digitsOf.simps) simp
    with "1.prems" True show ?thesis
      by (simp add: digit_char)
  next
    case False
    with "1.prems" have ih: "parseDigits 0 (digitsOf (n div 10)) = Some (n div 10)"
      using "1.IH" by simp
    have d: "isDigit (char_of (48 + nat (n mod 10)))"
      "digitVal (char_of (48 + nat (n mod 10))) = n mod 10"
      by (rule digit_char; simp)+
    have "digitsOf n = digitsOf (n div 10) @ [char_of (48 + nat (n mod 10))]"
      using False by (subst digitsOf.simps) simp
    then show ?thesis
      by (simp add: parseDigits_snoc ih d)
  qed
qed

lemma digitsOf_hd: "0 < n \<Longrightarrow> hd (digitsOf n) \<noteq> CHR ''0''"
proof (induction n rule: digitsOf.induct)
  case (1 n)
  show ?case
  proof (cases "n < 10")
    case True
    have e: "digitsOf n = [char_of (48 + nat n)]"
      using True by (subst digitsOf.simps) simp
    have "(of_char (char_of (48 + nat n)) :: nat) = 48 + nat n"
      using True "1.prems" by (simp only: of_char_of) simp
    moreover have "(of_char (CHR ''0'') :: nat) = 48"
      by simp
    ultimately have "char_of (48 + nat n) \<noteq> CHR ''0''"
      using "1.prems" by (metis add_cancel_right_right nat_0_iff not_less)
    with e show ?thesis by simp
  next
    case False
    then have "0 < n div 10" by simp
    with False have ih: "hd (digitsOf (n div 10)) \<noteq> CHR ''0''"
      using "1.IH" by simp
    have ne: "digitsOf (n div 10) \<noteq> []"
      using digitsOf_digits [of "n div 10"] False by simp
    have "digitsOf n = digitsOf (n div 10) @ [char_of (48 + nat (n mod 10))]"
      using False by (subst digitsOf.simps) simp
    with ih ne show ?thesis by simp
  qed
qed

lemma digitsOf_zero: "digitsOf 0 = ''0''"
  by code_simp

lemma Atoi_FormatInt:
  assumes "minInt \<le> i" and "i \<le> maxInt"
  shows "Atoi (FormatInt i) = Inr i"
proof (cases "i < 0")
  case True
  then have p: "parseDigits 0 (digitsOf (- i)) = Some (- i)"
    by (simp add: parseDigits_digitsOf)
  have ne: "digitsOf (- i) \<noteq> []"
    using digitsOf_digits [of "- i"] True by simp
  from True p ne assms show ?thesis
    by (simp add: Atoi_def FormatInt_def Let_def)
next
  case False
  then have p: "parseDigits 0 (digitsOf i) = Some i"
    by (simp add: parseDigits_digitsOf)
  from False have d: "digitsOf i \<noteq> []" "list_all isDigit (digitsOf i)"
    using digitsOf_digits [of i] by simp_all
  then obtain c cs where c: "digitsOf i = c # cs" "isDigit c"
    by (cases "digitsOf i") auto
  from False p c assms isDigit_not(1,2) [OF c(2)] show ?thesis
    by (simp add: Atoi_def FormatInt_def Let_def)
qed

lemma FormatInt_first:
  assumes "minInt \<le> i"
  obtains c cs where "FormatInt i = c # cs" and "c = CHR ''-'' \<or> isDigit c"
proof (cases "i < 0")
  case True
  then show ?thesis
    using that by (simp add: FormatInt_def)
next
  case False
  then have "digitsOf i \<noteq> []" "list_all isDigit (digitsOf i)"
    using digitsOf_digits [of i] by simp_all
  then obtain c cs where "digitsOf i = c # cs" "isDigit c"
    by (cases "digitsOf i") auto
  with False show ?thesis
    using that by (simp add: FormatInt_def)
qed

lemma digitRun_append:
  "list_all isDigit ds \<Longrightarrow> \<not> isDigit c \<Longrightarrow> digitRun (ds @ c # r) = ds"
  by (simp add: digitRun_def takeWhile_append2 list_all_iff)

lemma scanInt_digitsOf:
  assumes "0 \<le> n" and "\<not> isDigit c"
  shows "scanInt (digitsOf n @ c # r) = Some (digitsOf n, c # r)"
proof (cases "n = 0")
  case True
  then show ?thesis
    by (simp add: digitsOf_zero scanInt_def)
next
  case False
  with assms have pos: "0 < n" by simp
  from assms have d: "digitsOf n \<noteq> []" "list_all isDigit (digitsOf n)"
    using digitsOf_digits [of n] by simp_all
  then obtain a as where a: "digitsOf n = a # as" "isDigit a"
    by (cases "digitsOf n") auto
  from digitsOf_hd [OF pos] a have z: "a \<noteq> CHR ''0''"
    by simp
  have run: "digitRun (digitsOf n @ c # r) = digitsOf n"
    using d(2) assms(2) by (rule digitRun_append)
  have "scanInt (digitsOf n @ c # r)
          = Some (digitRun (digitsOf n @ c # r),
                  drop (length (digitRun (digitsOf n @ c # r))) (digitsOf n @ c # r))"
    using a z by (simp add: scanInt_def)
  then show ?thesis
    by (simp add: run)
qed

lemma scanNumber_FormatInt:
  assumes "\<not> isDigit c" and "c \<noteq> CHR ''.''" and "c \<noteq> CHR ''e''" and "c \<noteq> CHR ''E''"
  shows "scanNumber (FormatInt i @ c # r) = Some (FormatInt i, c # r)"
proof (cases "i < 0")
  case True
  then have "scanInt (digitsOf (- i) @ c # r) = Some (digitsOf (- i), c # r)"
    using assms(1) by (simp add: scanInt_digitsOf)
  with True assms show ?thesis
    by (simp add: scanNumber_def FormatInt_def scanFrac_def scanExp_def)
next
  case False
  then have s: "scanInt (digitsOf i @ c # r) = Some (digitsOf i, c # r)"
    using assms(1) by (simp add: scanInt_digitsOf)
  from False have "digitsOf i \<noteq> []" "list_all isDigit (digitsOf i)"
    using digitsOf_digits [of i] by simp_all
  then obtain a as where a: "digitsOf i = a # as" "isDigit a"
    by (cases "digitsOf i") auto
  from isDigit_not(1) [OF a(2)] have m: "a \<noteq> CHR ''-''" .
  have "scanNumber (digitsOf i @ c # r) = Some (digitsOf i, c # r)"
    using s a m assms by (simp add: scanNumber_def scanFrac_def scanExp_def)
  with False show ?thesis
    by (simp add: FormatInt_def)
qed

lemma parseValue_FormatInt:
  assumes "\<not> isDigit c" and "c \<noteq> CHR ''.''" and "c \<noteq> CHR ''e''" and "c \<noteq> CHR ''E''"
    and "minInt \<le> i"
  shows "parseValue (Suc f) d (FormatInt i @ c # r) = Some (JNumber (FormatInt i), c # r)"
proof -
  obtain a as where a: "FormatInt i = a # as" "a = CHR ''-'' \<or> isDigit a"
    using FormatInt_first [OF assms(5)] by blast
  have n: "a \<noteq> CHR ''{''" "a \<noteq> CHR ''[''" "a \<noteq> CHR 0x22"
    using a(2) isDigit_not [of a] by auto
  have "scanNumber (a # as @ c # r) = Some (a # as, c # r)"
    using scanNumber_FormatInt [OF assms(1-4), of i r] a(1) by simp
  with a n show ?thesis
    by simp
qed

lemma skipSpace_FormatInt:
  assumes "minInt \<le> i"
  shows "skipSpace (FormatInt i @ r) = FormatInt i @ r"
proof -
  obtain a as where a: "FormatInt i = a # as" "a = CHR ''-'' \<or> isDigit a"
    using FormatInt_first [OF assms] by blast
  then have "\<not> isSpace a"
    using isDigit_not(7) [of a] by (auto simp: isSpace_def)
  with a show ?thesis
    by (simp add: skipSpace_def)
qed

lemma parseElements_elementsText:
  assumes "\<forall>y\<in>set (x # xs). minInt \<le> y" and "Suc (length xs) < f"
  shows "parseElements f d (elementsText x xs @ r) = Some (map (\<lambda>y. JNumber (FormatInt y)) (x # xs), r)"
  using assms
proof (induction xs arbitrary: x f)
  case Nil
  then obtain f2 where f: "f = Suc (Suc f2)"
    by (cases f; cases "f - 1") auto
  have t: "elementsText x [] @ r = FormatInt x @ CHR 0x0A # CHR '' '' # CHR '' '' # CHR '']'' # r"
    by (simp add: elementsText_def)
  have v: "parseValue (Suc f2) d (FormatInt x @ CHR 0x0A # CHR '' '' # CHR '' '' # CHR '']'' # r)
             = Some (JNumber (FormatInt x), CHR 0x0A # CHR '' '' # CHR '' '' # CHR '']'' # r)"
    using Nil.prems(1) by (intro parseValue_FormatInt) (simp_all add: isDigit_def)
  show ?case
    unfolding f t by (simp add: v skipSpace_def isSpace_def)
next
  case (Cons y ys)
  then obtain f1 where f: "f = Suc f1" and f1: "Suc (length ys) < f1"
    by (cases f) auto
  then obtain f2 where f2: "f1 = Suc f2"
    by (cases f1) auto
  let ?tail = "CHR 0x0A # CHR '' '' # CHR '' '' # CHR '' '' # CHR '' '' # elementsText y ys @ r"
  have t: "elementsText x (y # ys) @ r = FormatInt x @ CHR '','' # ?tail"
    by (simp add: elementsText_def)
  have v: "parseValue f1 d (FormatInt x @ CHR '','' # ?tail)
             = Some (JNumber (FormatInt x), CHR '','' # ?tail)"
    unfolding f2 using Cons.prems(1) by (intro parseValue_FormatInt) (simp_all add: isDigit_def)
  have "skipSpace (elementsText y ys @ r) = elementsText y ys @ r"
    using skipSpace_FormatInt [of y] Cons.prems(1) by (simp add: elementsText_def)
  then have sk: "dropWhile isSpace (elementsText y ys @ r) = elementsText y ys @ r"
    by (simp add: skipSpace_def)
  have ih: "parseElements f1 d (elementsText y ys @ r)
              = Some (map (\<lambda>y. JNumber (FormatInt y)) (y # ys), r)"
    using Cons.prems(1) f1 by (intro Cons.IH) simp_all
  have "parseElements (Suc f1) d (FormatInt x @ CHR '','' # ?tail)
          = Some (map (\<lambda>y. JNumber (FormatInt y)) (x # y # ys), r)"
    by (subst parseElements.simps) (simp add: v sk ih skipSpace_def isSpace_def del: parseElements.simps)
  then show ?case
    unfolding f t .
qed

text \<open>
  A string of plain characters is written as it is and read back as it is; the time stamp
  is such a string.
\<close>

lemma unquote_plain: "list_all plainChar s \<Longrightarrow> unquote (s @ CHR 0x22 # r) = Some (s, r)"
proof (induction s)
  case Nil
  show ?case by simp
next
  case (Cons c s)
  then have c: "c \<noteq> CHR 0x22" "c \<noteq> CHR 0x5C" "\<not> byte c < 0x20" "byte c < 0x80"
    and ih: "unquote (s @ CHR 0x22 # r) = Some (s, r)"
    by (simp_all add: plainChar_def)
  then show ?case
    by (simp add: emit_def)
qed

lemma plainChar_not_control: "plainChar c \<Longrightarrow> byte d < 0x20 \<Longrightarrow> c \<noteq> d"
  by (auto simp: plainChar_def)

lemma appendString_plain: "list_all plainChar s \<Longrightarrow> appendString s = s"
proof (induction s)
  case Nil
  show ?case by simp
next
  case (Cons c s)
  then have ih: "appendString s = s" and p: "plainChar c"
    by simp_all
  have ctl: "byte (CHR 0x08) < 0x20" "byte (CHR 0x0C) < 0x20" "byte (CHR 0x0A) < 0x20"
    "byte (CHR 0x0D) < 0x20" "byte (CHR 0x09) < 0x20"
    by (simp_all add: byte_def)
  note n = ctl [THEN plainChar_not_control [OF p]]
  from p have q: "byte c < 0x80" "c \<noteq> CHR 0x22" "c \<noteq> CHR 0x5C" "\<not> byte c < 0x20"
    "c \<noteq> CHR ''<''" "c \<noteq> CHR ''>''" "c \<noteq> CHR ''&''"
    by (simp_all add: plainChar_def)
  show ?case
    by (subst appendString.simps) (simp add: ih Let_def n q del: appendString.simps)
qed

lemma plain_digitsOf: "0 \<le> n \<Longrightarrow> list_all plainChar (digitsOf n)"
  using digitsOf_digits [of n] by (auto simp: list_all_iff isDigit_plain)

lemma plain_appendInt: "list_all plainChar (appendInt x w)"
proof -
  have m: "plainChar (CHR ''-'')" "plainChar (CHR ''0'')"
    by (simp_all add: plainChar_def byte_def)
  have "list_all plainChar (digitsOf (if x < 0 then - x else x))"
    by (rule plain_digitsOf) simp
  with m show ?thesis
    by (auto simp: appendInt_def Let_def list_all_iff)
qed

lemma plain_formatZone: "list_all plainChar (formatZone off)"
proof -
  have "plainChar (CHR ''-'')" "plainChar (CHR ''+'')" "plainChar (CHR '':'')" "plainChar (CHR ''Z'')"
    by (simp_all add: plainChar_def byte_def)
  then show ?thesis
    by (simp add: formatZone_def Let_def plain_appendInt)
qed

lemma plain_FormatRFC3339: "list_all plainChar (FormatRFC3339 t)"
proof -
  have "plainChar (CHR ''-'')" "plainChar (CHR ''T'')" "plainChar (CHR '':'')"
    by (simp_all add: plainChar_def byte_def)
  then show ?thesis
    by (simp add: FormatRFC3339_def plain_appendInt plain_formatZone)
qed

lemma decodeInts_FormatInt:
  assumes "\<forall>y\<in>set xs. minInt \<le> y \<and> y \<le> maxInt" and "length arr = i"
  shows "decodeInts (map (\<lambda>y. JNumber (FormatInt y)) xs) i arr ok = (arr @ xs, i + length xs, ok)"
  using assms
proof (induction xs arbitrary: i arr)
  case Nil
  show ?case by simp
next
  case (Cons x xs)
  then have a: "Atoi (FormatInt x) = Inr x"
    by (simp add: Atoi_FormatInt)
  have s: "storeAt arr i x = arr @ [x]"
    using Cons.prems(2) by (simp add: storeAt_def)
  have "decodeInts (map (\<lambda>y. JNumber (FormatInt y)) xs) (Suc i) (arr @ [x]) ok
          = ((arr @ [x]) @ xs, Suc i + length xs, ok)"
    using Cons.prems by (intro Cons.IH) simp_all
  then show ?case
    by (simp add: a s)
qed

lemma equalFold_names:
  "equalFold ''last_selections'' ''last_selections''"
  "\<not> equalFold ''last_selections'' ''saved_at''"
  "equalFold ''saved_at'' ''saved_at''"
  by code_simp+

lemma decodeConfig_jsonOf:
  assumes "\<forall>y\<in>set (elems idxs). minInt \<le> y \<and> y \<le> maxInt"
  shows "decodeConfig (JObject [(''last_selections'', jsonOf idxs), (''saved_at'', JString s)])
           = Inr \<lparr>LastSelections = idxs, SavedAt = s\<rparr>"
proof (cases idxs)
  case None
  then show ?thesis
    by (simp add: decodeConfig_def decodeMember_def jsonOf_def equalFold_names Let_def
        del: equalFold.simps)
next
  case (Some xs)
  with assms have d: "decodeInts (map (\<lambda>y. JNumber (FormatInt y)) xs) 0 [] True
                        = ([] @ xs, 0 + length xs, True)"
    by (intro decodeInts_FormatInt) (simp_all add: elems_def)
  with Some show ?thesis
    by (simp add: decodeConfig_def decodeMember_def jsonOf_def equalFold_names Let_def
        del: equalFold.simps)
qed

text \<open>Reading the text of \<open>MarshalIndent\<close> member by member.\<close>

lemma skipSpace_Cons: "skipSpace (c # r) = (if isSpace c then skipSpace r else c # r)"
  by (simp add: skipSpace_def)

lemma skipSpace_Nil: "skipSpace [] = []"
  by (simp add: skipSpace_def)

lemma plain_names: "list_all plainChar ''last_selections''" "list_all plainChar ''saved_at''"
  by (simp_all add: plainChar_def byte_def)

lemma encodeInts_cases:
  "encodeInts None = ''null''"
  "encodeInts (Some []) = ''[]''"
  "encodeInts (Some (x # xs))
     = CHR ''['' # CHR 0x0A # CHR '' '' # CHR '' '' # CHR '' '' # CHR '' '' # elementsText x xs"
  by (simp_all add: encodeInts_def elementsText_def)

lemma parseValue_encodeInts:
  assumes "\<forall>y\<in>set (elems idxs). minInt \<le> y" and "Suc (length (elems idxs)) < f"
  shows "parseValue (Suc f) (Suc 0) (encodeInts idxs @ CHR '','' # r) = Some (jsonOf idxs, CHR '','' # r)"
proof (cases idxs)
  case None
  then show ?thesis
    by (simp add: encodeInts_cases jsonOf_def isDigit_def)
next
  case (Some xs)
  show ?thesis
  proof (cases xs)
    case Nil
    with Some show ?thesis
      by (simp add: encodeInts_cases jsonOf_def maxNestingDepth_def skipSpace_Cons isSpace_def)
  next
    case (Cons x xs')
    from assms Some Cons have pre: "\<forall>y\<in>set (x # xs'). minInt \<le> y" "Suc (length xs') < f"
      by (simp_all add: elems_def)
    then have "minInt \<le> x"
      by simp
    then obtain a as where a: "FormatInt x = a # as" "a = CHR ''-'' \<or> isDigit a"
      using FormatInt_first by blast
    have na: "a \<noteq> CHR '']''" "\<not> isSpace a"
      using a(2) isDigit_not [of a] by (auto simp: isSpace_def)
    let ?t = "elementsText x xs' @ CHR '','' # r"
    obtain bs where t: "?t = a # bs"
      using a(1) by (simp add: elementsText_def)
    have pe: "parseElements f (Suc (Suc 0)) ?t
                = Some (map (\<lambda>y. JNumber (FormatInt y)) (x # xs'), CHR '','' # r)"
      using pre by (rule parseElements_elementsText)
    have nsp: "a \<noteq> CHR '' ''" "a \<noteq> CHR 0x09" "a \<noteq> CHR 0x0D" "a \<noteq> CHR 0x0A"
      using na(2) by (simp_all add: isSpace_def)
    have "parseValue (Suc f) (Suc 0)
            (CHR ''['' # CHR 0x0A # CHR '' '' # CHR '' '' # CHR '' '' # CHR '' '' # ?t)
          = Some (JArray (map (\<lambda>y. JNumber (FormatInt y)) (x # xs')), CHR '','' # r)"
      using pe na(1) nsp unfolding t
      by (subst parseValue.simps)
        (simp add: skipSpace_Cons isSpace_def maxNestingDepth_def del: parseValue.simps)
    with Some Cons show ?thesis
      by (simp add: encodeInts_cases jsonOf_def)
  qed
qed

lemma parseMembers_savedAt:
  assumes "list_all plainChar s"
  shows "parseMembers (Suc (Suc f)) d (savedAtText s) = Some ([(''saved_at'', JString s)], [])"
proof -
  have k: "unquote (''saved_at'' @ CHR 0x22 # CHR '':'' # CHR '' '' # CHR 0x22 # s
              @ CHR 0x22 # CHR 0x0A # ''}'')
             = Some (''saved_at'', CHR '':'' # CHR '' '' # CHR 0x22 # s @ CHR 0x22 # CHR 0x0A # ''}'')"
    using plain_names(2) by (rule unquote_plain)
  have v: "unquote (s @ CHR 0x22 # CHR 0x0A # ''}'') = Some (s, CHR 0x0A # ''}'')"
    using assms by (rule unquote_plain)
  have pv: "parseValue (Suc f) d (CHR 0x22 # s @ CHR 0x22 # CHR 0x0A # ''}'')
              = Some (JString s, CHR 0x0A # ''}'')"
    by (subst parseValue.simps) (simp add: v del: parseValue.simps)
  show ?thesis
    unfolding savedAtText_def
    by (subst parseMembers.simps)
      (simp add: k [unfolded append_Cons append_Nil] pv skipSpace_Cons isSpace_def
         del: parseMembers.simps parseValue.simps unquote.simps)
qed

lemma parseMembers_membersText:
  assumes "\<forall>y\<in>set (elems idxs). minInt \<le> y" and "Suc (length (elems idxs)) < f"
    and "list_all plainChar s"
  shows "parseMembers (Suc (Suc f)) (Suc 0) (membersText idxs s)
           = Some ([(''last_selections'', jsonOf idxs), (''saved_at'', JString s)], [])"
proof -
  let ?r = "CHR 0x0A # CHR '' '' # CHR '' '' # savedAtText s"
  let ?after = "CHR '':'' # CHR '' '' # encodeInts idxs @ CHR '','' # ?r"
  have k: "unquote (''last_selections'' @ CHR 0x22 # ?after) = Some (''last_selections'', ?after)"
    using plain_names(1) by (rule unquote_plain)
  obtain e es where e: "encodeInts idxs @ CHR '','' # ?r = e # es" and ne: "\<not> isSpace e"
  proof (cases idxs)
    case None
    then show ?thesis
      using that by (simp add: encodeInts_cases isSpace_def)
  next
    case (Some xs)
    then show ?thesis
      using that by (cases xs) (simp_all add: encodeInts_cases isSpace_def)
  qed
  have pv: "parseValue (Suc f) (Suc 0) (encodeInts idxs @ CHR '','' # ?r)
              = Some (jsonOf idxs, CHR '','' # ?r)"
    using assms(1,2) by (rule parseValue_encodeInts)
  have sk1: "skipSpace (encodeInts idxs @ CHR '','' # ?r) = encodeInts idxs @ CHR '','' # ?r"
    using e ne by (simp add: skipSpace_Cons)
  have f2: "f = Suc (f - 1)" "f - 1 = Suc (f - 2)"
    using assms(2) by simp_all
  have pm: "parseMembers (Suc f) (Suc 0) (savedAtText s) = Some ([(''saved_at'', JString s)], [])"
    using parseMembers_savedAt [OF assms(3), of "f - 1" "Suc 0"] f2 by simp
  have sk2: "skipSpace (savedAtText s) = savedAtText s"
    by (simp add: skipSpace_Cons isSpace_def savedAtText_def)
  have "parseMembers (Suc (Suc f)) (Suc 0) (CHR 0x22 # ''last_selections'' @ CHR 0x22 # ?after)
          = Some ([(''last_selections'', jsonOf idxs), (''saved_at'', JString s)], [])"
    by (subst parseMembers.simps)
      (simp add: k [unfolded append_Cons append_Nil] sk1 pv sk2 pm skipSpace_Cons isSpace_def
         del: parseMembers.simps parseValue.simps unquote.simps)
  then show ?thesis
    by (simp add: membersText_def)
qed

lemma MarshalIndent_text:
  "list_all plainChar s \<Longrightarrow>
     MarshalIndent \<lparr>LastSelections = idxs, SavedAt = s\<rparr>
       = CHR ''{'' # CHR 0x0A # CHR '' '' # CHR '' '' # membersText idxs s"
  by (simp add: MarshalIndent_def membersText_def savedAtText_def appendString_plain)

lemma length_encodeInts: "length (elems idxs) \<le> length (encodeInts idxs)"
proof (cases idxs)
  case None
  then show ?thesis by (simp add: elems_def)
next
  case (Some xs)
  have c: "length ys \<le> length (concat (map (\<lambda>y. [CHR '','', CHR 0x0A] @ ''    '' @ FormatInt y) ys))"
    for ys :: "int list"
    by (induction ys) simp_all
  show ?thesis
  proof (cases xs)
    case Nil
    with Some show ?thesis by (simp add: elems_def)
  next
    case (Cons x xs')
    with Some c [of xs'] show ?thesis
      by (simp add: elems_def encodeInts_def)
  qed
qed

text \<open>
  \<open>Unmarshal\<close> gives back the record that \<open>MarshalIndent\<close> wrote, for a slice of values of
  the 64-bit \<open>int\<close> and a string of plain characters.
\<close>

lemma Unmarshal_MarshalIndent:
  assumes "\<forall>y\<in>set (elems idxs). minInt \<le> y \<and> y \<le> maxInt" and "list_all plainChar s"
  shows "Unmarshal (MarshalIndent \<lparr>LastSelections = idxs, SavedAt = s\<rparr>)
           = Inr \<lparr>LastSelections = idxs, SavedAt = s\<rparr>"
proof -
  let ?b = "MarshalIndent \<lparr>LastSelections = idxs, SavedAt = s\<rparr>"
  have b: "?b = CHR ''{'' # CHR 0x0A # CHR '' '' # CHR '' '' # membersText idxs s"
    using assms(2) by (rule MarshalIndent_text)
  have "length (encodeInts idxs) \<le> length (membersText idxs s)"
    by (simp add: membersText_def)
  then have len: "length (elems idxs) + 4 \<le> length ?b"
    using length_encodeInts [of idxs] unfolding b by simp
  define f where "f = 2 * length ?b - 1"
  have fuel: "2 * length ?b + 2 = Suc (Suc (Suc f))" and big: "Suc (length (elems idxs)) < f"
    using len by (simp_all add: f_def)
  have lo: "\<forall>y\<in>set (elems idxs). minInt \<le> y"
    using assms(1) by simp
  have pm: "parseMembers (Suc (Suc f)) (Suc 0) (membersText idxs s)
              = Some ([(''last_selections'', jsonOf idxs), (''saved_at'', JString s)], [])"
    using lo big assms(2) by (rule parseMembers_membersText)
  obtain ms where m: "membersText idxs s = CHR 0x22 # ms"
    by (simp add: membersText_def)
  have pv: "parseValue (Suc (Suc (Suc f))) 0
              (CHR ''{'' # CHR 0x0A # CHR '' '' # CHR '' '' # membersText idxs s)
            = Some (JObject [(''last_selections'', jsonOf idxs), (''saved_at'', JString s)], [])"
    using pm unfolding m
    by (subst parseValue.simps)
      (simp add: skipSpace_Cons isSpace_def maxNestingDepth_def
         del: parseMembers.simps parseValue.simps)
  have sk: "skipSpace ?b = ?b"
    unfolding b by (simp add: skipSpace_Cons isSpace_def)
  have "Unmarshal ?b
          = decodeConfig (JObject [(''last_selections'', jsonOf idxs), (''saved_at'', JString s)])"
    unfolding Unmarshal_def sk fuel unfolding b
    by (simp add: pv skipSpace_Nil del: parseValue.simps)
  then show ?thesis
    using assms(1) by (simp add: decodeConfig_jsonOf)
qed

text \<open>
  Claim C7. When \<open>saveLastSelections\<close> returns no error, \<open>loadLastSelections\<close> from the same
  path of the file system it leaves returns exactly the slice that was saved: the same
  integers in the same order, and \<open>nil\<close> for \<open>nil\<close>. The slice is any slice of Go's \<open>int\<close>,
  and the time of the save is arbitrary.
\<close>

theorem save_then_load_round_trip:
  assumes "saveLastSelections fs p now idxs = (None, fs')"
    and "\<forall>x\<in>set (elems idxs). minInt \<le> x \<and> x \<le> maxInt"
  shows "loadLastSelections fs' p = Inr idxs"
proof -
  let ?b = "MarshalIndent \<lparr>LastSelections = idxs, SavedAt = FormatRFC3339 now\<rparr>"
  from assms(1) have w: "WriteFile fs p ?b = (None, fs')"
    by (simp add: saveLastSelections_def Let_def)
  then have "canWrite fs p"
    by (cases "canWrite fs p") (simp_all add: WriteFile_def)
  with w have fs': "fs' = fs\<lparr>files := (files fs)(p \<mapsto> ?b)\<rparr>"
    by (simp add: WriteFile_def)
  then have r: "ReadFile fs' p = Inr ?b"
    by (simp add: ReadFile_def)
  have "Unmarshal ?b = Inr \<lparr>LastSelections = idxs, SavedAt = FormatRFC3339 now\<rparr>"
    using assms(2) plain_FormatRFC3339 by (rule Unmarshal_MarshalIndent)
  with r show ?thesis
    by (simp add: loadLastSelections_def)
qed

text \<open>Saving the selection 4, 2 on the example machine and loading it.\<close>

theorem save_then_load_round_trip_witness:
  "fst (saveLastSelections (fsys demoWorld) (cfgPath demoWorld) (clock demoWorld) (Some [4, 2]))
     = None
   \<and> minInt \<le> 2 \<and> 4 \<le> maxInt
   \<and> loadLastSelections
         (snd (saveLastSelections (fsys demoWorld) (cfgPath demoWorld) (clock demoWorld)
                 (Some [4, 2])))
         (cfgPath demoWorld)
       = Inr (Some [4, 2])"
proof -
  let ?s = "saveLastSelections (fsys demoWorld) (cfgPath demoWorld) (clock demoWorld) (Some [4, 2])"
  have a: "fst ?s = None"
    by (simp add: saveLastSelections_def WriteFile_def demoWorld_def Let_def)
  then have s: "?s = (None, snd ?s)"
    by (metis prod.collapse)
  have m: "minInt \<le> 2" "4 \<le> maxInt" "minInt \<le> 4" "2 \<le> maxInt"
    by (simp_all add: minInt_def maxInt_def)
  then have e: "\<forall>x\<in>set (elems (Some [4, 2])). minInt \<le> x \<and> x \<le> maxInt"
    by (simp add: elems_def)
  from save_then_load_round_trip [OF s e] a m show ?thesis
    by simp
qed

end
